theory Spec2Isabelle
  imports Main
begin

section \<open>The build_proto command of the Python SDK's setup.py\<close>

text \<open>
  The source is \<^verbatim>\<open>flex/interactive/sdk/python/setup.py\<close>: the class \<^verbatim>\<open>BuildProto\<close> with
  its methods \<^verbatim>\<open>generate_proto\<close> and \<^verbatim>\<open>run\<close>. Both methods only call the operating
  system: \<^verbatim>\<open>glob.glob\<close>, \<^verbatim>\<open>os.path.join\<close>, \<^verbatim>\<open>os.path.exists\<close>, \<^verbatim>\<open>os.makedirs\<close>
  and \<^verbatim>\<open>subprocess.check_call\<close>. The model therefore has three layers:
  \<^item> the path functions of \<^verbatim>\<open>posixpath\<close>, as pure functions on strings;
  \<^item> a file system of regular files and directories (no symbolic links, no permissions),
    with \<^verbatim>\<open>stat\<close>, \<^verbatim>\<open>mkdir\<close>, the directory listing, and on top of them
    \<^verbatim>\<open>os.path.exists\<close>, \<^verbatim>\<open>os.path.isdir\<close>, \<^verbatim>\<open>os.makedirs\<close> and the one
    \<^verbatim>\<open>glob.glob\<close> call the source makes, each following the CPython library function;
  \<^item> the two methods of \<^verbatim>\<open>BuildProto\<close>, threading the file system and a log of the
    operating-system calls they make.
  The protobuf compiler is external code: it is a parameter, a function from the command
  line and the file system to an exit status and a new file system.
\<close>

subsection \<open>posixpath\<close>

text \<open>
  \<^verbatim>\<open>posixpath.join(a, b)\<close>: an absolute \<open>b\<close> replaces \<open>a\<close>; otherwise \<open>b\<close> is appended,
  with a separator unless \<open>a\<close> is empty or already ends with one.
\<close>

definition path_join :: "string \<Rightarrow> string \<Rightarrow> string" where
  "path_join a b =
     (if b \<noteq> [] \<and> hd b = CHR ''/'' then b
      else if a = [] \<or> last a = CHR ''/'' then a @ b
      else a @ ''/'' @ b)"

text \<open>
  \<^verbatim>\<open>posixpath.split(p)\<close>: the tail is everything after the last slash; the head is
  everything up to it, with its trailing slashes removed unless it consists of slashes only.
\<close>

definition rstrip_slash :: "string \<Rightarrow> string" where
  "rstrip_slash s = rev (dropWhile (\<lambda>c. c = CHR ''/'') (rev s))"

definition path_split :: "string \<Rightarrow> string \<times> string" where
  "path_split p =
     (let head = rev (dropWhile (\<lambda>c. c \<noteq> CHR ''/'') (rev p));
          tail = rev (takeWhile (\<lambda>c. c \<noteq> CHR ''/'') (rev p))
      in (if head \<noteq> [] \<and> \<not> list_all (\<lambda>c. c = CHR ''/'') head then rstrip_slash head else head,
          tail))"

text \<open>The components of a path: the pieces between slashes, empty pieces included.\<close>

fun split_slash :: "string \<Rightarrow> string list" where
  "split_slash [] = [[]]"
| "split_slash (c # cs) =
     (if c = CHR ''/'' then [] # split_slash cs
      else (case split_slash cs of
              [] \<Rightarrow> [[c]]
            | x # xs \<Rightarrow> (c # x) # xs))"

subsection \<open>The file system\<close>

text \<open>
  A file system is an association list from canonical absolute paths (lists of names, the
  root being the empty list) to the kind of node found there. The order of the list is the
  order in which a directory scan returns the entries. The root is always a directory.
  An entry is reachable only through directories, one name at a time, as path resolution
  does it; nothing else is assumed of the list.
\<close>

datatype kind = RegularFile | Directory

type_synonym fs = "(string list \<times> kind) list"

datatype errno = ENOENT | ENOTDIR | EEXIST

datatype error =
    OSError errno string
  | CalledProcessError int "string list"

definition node_at :: "fs \<Rightarrow> string list \<Rightarrow> kind option" where
  "node_at fs p = (if p = [] then Some Directory else map_of fs p)"

text \<open>
  One step of path resolution from the node \<open>cur\<close>: the node must be a directory; an empty
  component and \<^verbatim>\<open>.\<close> stay, \<^verbatim>\<open>..\<close> goes to the parent (the root is its own parent),
  a name goes to the child of that name.
\<close>

definition walk_step :: "fs \<Rightarrow> string list \<Rightarrow> string \<Rightarrow> errno + string list" where
  "walk_step fs cur c =
     (if node_at fs cur \<noteq> Some Directory then Inl ENOTDIR
      else if c = [] \<or> c = ''.'' then Inr cur
      else if c = ''..'' then Inr (butlast cur)
      else (case map_of fs (cur @ [c]) of
              None \<Rightarrow> Inl ENOENT
            | Some k \<Rightarrow> Inr (cur @ [c])))"

fun walk :: "fs \<Rightarrow> string list \<Rightarrow> string list \<Rightarrow> errno + string list" where
  "walk fs cur [] = Inr cur"
| "walk fs cur (c # cs) =
     (case walk_step fs cur c of
        Inl e \<Rightarrow> Inl e
      | Inr cur' \<Rightarrow> walk fs cur' cs)"

definition start_dir :: "string list \<Rightarrow> string \<Rightarrow> string list" where
  "start_dir cwd p = (if p \<noteq> [] \<and> hd p = CHR ''/'' then [] else cwd)"

definition resolve :: "string list \<Rightarrow> fs \<Rightarrow> string \<Rightarrow> errno + string list" where
  "resolve cwd fs p =
     (if p = [] then Inl ENOENT else walk fs (start_dir cwd p) (split_slash p))"

definition stat :: "string list \<Rightarrow> fs \<Rightarrow> string \<Rightarrow> errno + kind" where
  "stat cwd fs p =
     (case resolve cwd fs p of
        Inl e \<Rightarrow> Inl e
      | Inr q \<Rightarrow> (case node_at fs q of None \<Rightarrow> Inl ENOENT | Some k \<Rightarrow> Inr k))"

text \<open>\<^verbatim>\<open>os.path.exists\<close> and \<^verbatim>\<open>os.path.isdir\<close>: \<^verbatim>\<open>os.stat\<close>, an error giving False.\<close>

definition path_exists :: "string list \<Rightarrow> fs \<Rightarrow> string \<Rightarrow> bool" where
  "path_exists cwd fs p = (case stat cwd fs p of Inl e \<Rightarrow> False | Inr k \<Rightarrow> True)"

definition path_isdir :: "string list \<Rightarrow> fs \<Rightarrow> string \<Rightarrow> bool" where
  "path_isdir cwd fs p = (stat cwd fs p = Inr Directory)"

text \<open>
  The names in a directory, in scan order; nothing when the path is not a directory
  (\<^verbatim>\<open>glob._iterdir\<close> swallows the \<^verbatim>\<open>OSError\<close> of \<^verbatim>\<open>os.scandir\<close>).
\<close>

definition children :: "fs \<Rightarrow> string list \<Rightarrow> string list" where
  "children fs q =
     remdups (map (\<lambda>e. last (fst e)) (filter (\<lambda>e. fst e \<noteq> [] \<and> butlast (fst e) = q) fs))"

definition listdir :: "string list \<Rightarrow> fs \<Rightarrow> string \<Rightarrow> string list" where
  "listdir cwd fs p =
     (case resolve cwd fs p of
        Inl e \<Rightarrow> []
      | Inr q \<Rightarrow> (if node_at fs q = Some Directory then children fs q else []))"

text \<open>
  \<^verbatim>\<open>mkdir(2)\<close>: an existing path is \<^verbatim>\<open>EEXIST\<close>; otherwise the parent must resolve to a
  directory, and the new directory is entered last in the scan order.
\<close>

definition mkdir :: "string list \<Rightarrow> fs \<Rightarrow> string \<Rightarrow> error + fs" where
  "mkdir cwd fs p =
     (if p = [] then Inl (OSError ENOENT p)
      else (case stat cwd fs p of
              Inr k \<Rightarrow> Inl (OSError EEXIST p)
            | Inl e0 \<Rightarrow>
               (let comps = split_slash (rstrip_slash p) in
                case walk fs (start_dir cwd p) (butlast comps) of
                  Inl e \<Rightarrow> Inl (OSError e p)
                | Inr cur \<Rightarrow>
                    if node_at fs cur \<noteq> Some Directory then Inl (OSError ENOTDIR p)
                    else if last comps \<in> {[], ''.'', ''..''} then Inl (OSError e0 p)
                    else Inr (fs @ [(cur @ [last comps], Directory)]))))"

text \<open>
  \<^verbatim>\<open>os.makedirs(name, exist_ok=True)\<close>. The library function reads:
  \<^verbatim>\<open>
    head, tail = path.split(name)
    if not tail:
        head, tail = path.split(head)
    if head and tail and not path.exists(head):
        try:
            makedirs(head, exist_ok=exist_ok)
        except FileExistsError:
            pass
        if tail == curdir:
            return
    try:
        mkdir(name, mode)
    except OSError:
        if not exist_ok or not path.isdir(name):
            raise
  \<close>
  The file system a failed call leaves behind is returned with the error.
\<close>

definition makedirs_split :: "string \<Rightarrow> string \<times> string" where
  "makedirs_split name =
     (if snd (path_split name) = [] then path_split (fst (path_split name))
      else path_split name)"

definition mkdir_exist_ok :: "string list \<Rightarrow> fs \<Rightarrow> string \<Rightarrow> (error + unit) \<times> fs" where
  "mkdir_exist_ok cwd fs name =
     (case mkdir cwd fs name of
        Inr fs' \<Rightarrow> (Inr (), fs')
      | Inl e \<Rightarrow> (if \<not> path_isdir cwd fs name then (Inl e, fs) else (Inr (), fs)))"

fun is_FileExistsError :: "error \<Rightarrow> bool" where
  "is_FileExistsError (OSError e p) = (e = EEXIST)"
| "is_FileExistsError (CalledProcessError rc cmd) = False"

function makedirs :: "string list \<Rightarrow> fs \<Rightarrow> string \<Rightarrow> (error + unit) \<times> fs" where
  "makedirs cwd fs name =
     (if fst (makedirs_split name) \<noteq> [] \<and> snd (makedirs_split name) \<noteq> []
         \<and> \<not> path_exists cwd fs (fst (makedirs_split name))
      then (case makedirs cwd fs (fst (makedirs_split name)) of
              (Inl e, fs1) \<Rightarrow>
                 if is_FileExistsError e
                 then (if snd (makedirs_split name) = ''.'' then (Inr (), fs1)
                       else mkdir_exist_ok cwd fs1 name)
                 else (Inl e, fs1)
            | (Inr u, fs1) \<Rightarrow>
                 if snd (makedirs_split name) = ''.'' then (Inr (), fs1)
                 else mkdir_exist_ok cwd fs1 name)
      else mkdir_exist_ok cwd fs name)"
  by pat_completeness auto
termination
proof (relation "measure (\<lambda>(cwd, fs, name). length name)")
  show "wf (measure (\<lambda>(cwd, fs, name). length name))"
    by simp
next
  fix cwd :: "string list" and fs :: fs and name :: string
  assume "fst (makedirs_split name) \<noteq> [] \<and> snd (makedirs_split name) \<noteq> []
          \<and> \<not> path_exists cwd fs (fst (makedirs_split name))"
  then have t: "snd (makedirs_split name) \<noteq> []"
    by simp
  have split_le: "length (fst (path_split p)) + length (snd (path_split p)) \<le> length p" for p
  proof -
    have "length (dropWhile (\<lambda>c. c \<noteq> CHR ''/'') (rev p))
          + length (takeWhile (\<lambda>c. c \<noteq> CHR ''/'') (rev p)) = length p"
      by (metis add.commute length_append length_rev takeWhile_dropWhile_id)
    moreover have "length (rstrip_slash (rev (dropWhile (\<lambda>c. c \<noteq> CHR ''/'') (rev p))))
          \<le> length (dropWhile (\<lambda>c. c \<noteq> CHR ''/'') (rev p))"
      unfolding rstrip_slash_def
      by (metis length_dropWhile_le length_rev rev_rev_ident)
    ultimately show ?thesis
      by (simp add: path_split_def Let_def)
  qed
  have "length (fst (makedirs_split name)) < length name"
  proof (cases "snd (path_split name) = []")
    case False
    then have "0 < length (snd (path_split name))" by simp
    with split_le [of name]
    have "length (fst (path_split name)) < length name" by linarith
    with False show ?thesis
      by (simp add: makedirs_split_def)
  next
    case True
    have "length (fst (path_split name)) \<le> length name"
      using split_le [of name] by simp
    moreover have "0 < length (snd (path_split (fst (path_split name))))"
      using t True by (simp add: makedirs_split_def)
    then have "length (fst (path_split (fst (path_split name)))) < length (fst (path_split name))"
      using split_le [of "fst (path_split name)"] by linarith
    ultimately show ?thesis using True
      by (simp add: makedirs_split_def)
  qed
  then show "((cwd, fs, fst (makedirs_split name)), (cwd, fs, name))
             \<in> measure (\<lambda>(cwd, fs, name). length name)"
    by simp
qed

declare makedirs.simps [simp del]

subsection \<open>glob\<close>

text \<open>
  \<^verbatim>\<open>glob.has_magic\<close>: the string contains one of the characters \<^verbatim>\<open>*\<close>, \<^verbatim>\<open>?\<close>, \<^verbatim>\<open>[\<close>.
\<close>

definition has_magic :: "string \<Rightarrow> bool" where
  "has_magic s = list_ex (\<lambda>c. c = CHR ''*'' \<or> c = CHR ''?'' \<or> c = CHR ''['') s"

text \<open>
  \<^verbatim>\<open>fnmatch\<close> of a name against the pattern \<^verbatim>\<open>*.proto\<close> (the only pattern the source
  uses): the name ends with \<^verbatim>\<open>.proto\<close>. \<^verbatim>\<open>glob._glob1\<close> drops the names that start
  with a dot first, since the pattern does not start with one.
\<close>

definition endswith :: "string \<Rightarrow> string \<Rightarrow> bool" where
  "endswith s suf = (length suf \<le> length s \<and> drop (length s - length suf) s = suf)"

definition ishidden :: "string \<Rightarrow> bool" where
  "ishidden n = (n \<noteq> [] \<and> hd n = CHR ''.'')"

definition fnmatch_star_proto :: "string \<Rightarrow> bool" where
  "fnmatch_star_proto n = endswith n ''.proto''"

definition glob1_star_proto :: "string list \<Rightarrow> fs \<Rightarrow> string \<Rightarrow> string list" where
  "glob1_star_proto cwd fs dirname =
     filter fnmatch_star_proto
       (filter (\<lambda>n. \<not> ishidden n) (listdir cwd fs (if dirname = [] then ''.'' else dirname)))"

subsection \<open>The process environment\<close>

text \<open>
  What the command takes from its process and from outside:
  \<^item> \<open>executable\<close> is \<^verbatim>\<open>sys.executable\<close>;
  \<^item> \<open>cwd\<close> is the working directory, a canonical absolute path;
  \<^item> \<open>protoc\<close> is the effect of one compiler subprocess: from the argument list and the
    file system to the exit status and the file system it leaves;
  \<^item> \<open>glob_dirs\<close> is \<^verbatim>\<open>glob._iglob(dirname, dironly=True)\<close>, the expansion of a
    directory name that itself contains pattern characters. The model does not expand
    such names itself.
\<close>

record env =
  executable :: string
  cwd :: "string list"
  protoc :: "string list \<Rightarrow> fs \<Rightarrow> int \<times> fs"
  glob_dirs :: "fs \<Rightarrow> string \<Rightarrow> string list"

text \<open>
  \<^verbatim>\<open>glob.glob(pathname)\<close> for a path name whose last component is \<^verbatim>\<open>*.proto\<close>,
  following \<^verbatim>\<open>glob._iglob\<close>: the path name is split; without a directory part the names
  of the current directory are returned as they are; otherwise each match is joined with
  its directory.
\<close>

definition glob_star_proto :: "env \<Rightarrow> fs \<Rightarrow> string \<Rightarrow> string list" where
  "glob_star_proto E fs pathname =
     (let dirname = fst (path_split pathname) in
      if dirname = [] then glob1_star_proto (cwd E) fs []
      else concat (map (\<lambda>d. map (path_join d) (glob1_star_proto (cwd E) fs d))
                     (if dirname \<noteq> pathname \<and> has_magic dirname
                      then glob_dirs E fs dirname else [dirname])))"

subsection \<open>BuildProto\<close>

text \<open>
  The state is the file system and the log of operating-system calls made so far, the
  newest last. The log keeps the answer of each existence test and the exit status of each
  subprocess.
\<close>

datatype event =
    Glob string
  | Makedirs string
  | Exists string bool
  | CheckCall "string list" int

record world =
  fsys :: fs
  trace :: "event list"

definition log_event :: "event \<Rightarrow> world \<Rightarrow> world" where
  "log_event ev w = w\<lparr>trace := trace w @ [ev]\<rparr>"

text \<open>
  \<^verbatim>\<open>subprocess.check_call(cmd, stderr=subprocess.STDOUT)\<close>: runs the command, and raises
  \<^verbatim>\<open>CalledProcessError\<close> when the exit status is not zero.
\<close>

definition check_call :: "env \<Rightarrow> string list \<Rightarrow> world \<Rightarrow> (error + unit) \<times> world" where
  "check_call E cmd w =
     (let (rc, fs') = protoc E cmd (fsys w);
          w' = (log_event (CheckCall cmd rc) w)\<lparr>fsys := fs'\<rparr>
      in if rc = 0 then (Inr (), w') else (Inl (CalledProcessError rc cmd), w'))"

definition os_makedirs :: "env \<Rightarrow> string \<Rightarrow> world \<Rightarrow> (error + unit) \<times> world" where
  "os_makedirs E name w =
     (let (r, fs') = makedirs (cwd E) (fsys w) name
      in (r, (log_event (Makedirs name) w)\<lparr>fsys := fs'\<rparr>))"

text \<open>The argument list built in the loop body of \<^verbatim>\<open>generate_proto\<close>.\<close>

definition protoc_cmd :: "env \<Rightarrow> string \<Rightarrow> string \<Rightarrow> string \<Rightarrow> string list" where
  "protoc_cmd E proto_path output_dir proto_file =
     [executable E, ''-m'', ''grpc_tools.protoc'', ''-I'', proto_path,
      ''--python_out='' @ output_dir, ''--mypy_out='' @ output_dir, proto_file]"

text \<open>
  The loop over \<^verbatim>\<open>proto_files\<close>: the existence test, the command, the subprocess; an
  exception leaves the loop.
\<close>

fun compile_loop :: "env \<Rightarrow> string \<Rightarrow> string \<Rightarrow> string list \<Rightarrow> world \<Rightarrow> (error + unit) \<times> world" where
  "compile_loop E proto_path output_dir [] w = (Inr (), w)"
| "compile_loop E proto_path output_dir (proto_file # rest) w =
     (let w1 = log_event (Exists proto_file (path_exists (cwd E) (fsys w) proto_file)) w;
          proto_file' = (if \<not> path_exists (cwd E) (fsys w) proto_file
                         then path_join proto_path proto_file else proto_file)
      in case check_call E (protoc_cmd E proto_path output_dir proto_file') w1 of
           (Inl e, w2) \<Rightarrow> (Inl e, w2)
         | (Inr u, w2) \<Rightarrow> compile_loop E proto_path output_dir rest w2)"

definition generate_proto ::
  "env \<Rightarrow> string \<Rightarrow> string \<Rightarrow> string list option \<Rightarrow> world \<Rightarrow> (error + unit) \<times> world" where
  "generate_proto E proto_path output_dir proto_files w =
     (let (files, w1) =
            (case proto_files of
               None \<Rightarrow> (glob_star_proto E (fsys w) (path_join proto_path ''*.proto''),
                        log_event (Glob (path_join proto_path ''*.proto'')) w)
             | Some fl \<Rightarrow> (fl, w))
      in case os_makedirs E output_dir w1 of
           (Inl e, w2) \<Rightarrow> (Inl e, w2)
         | (Inr u, w2) \<Rightarrow> compile_loop E proto_path output_dir files w2)"

definition run :: "env \<Rightarrow> world \<Rightarrow> (error + unit) \<times> world" where
  "run E w =
     (case generate_proto E ''../../../../interactive_engine/executor/ir/proto/''
             ''./gs_interactive/client/generated/'' None w of
        (Inl e, w1) \<Rightarrow> (Inl e, w1)
      | (Inr u, w1) \<Rightarrow>
          generate_proto E ''../../../../proto/error''
             ''./gs_interactive/client/generated/'' (Some [''interactive.proto'']) w1)"

text \<open>
  The events a call adds to the log, and the command lines among a list of events.
\<close>

definition new_events :: "world \<Rightarrow> world \<Rightarrow> event list" where
  "new_events w w' = drop (length (trace w)) (trace w')"

fun commands :: "event list \<Rightarrow> string list list" where
  "commands [] = []"
| "commands (CheckCall cmd rc # evs) = cmd # commands evs"
| "commands (ev # evs) = commands evs"

subsection \<open>The events of a call, written out\<close>

text \<open>
  The file handed to the compiler for an entry, the command built for it, and the events
  the loop adds to the log: used to state what the log of a call looks like.
\<close>

definition chosen_file :: "env \<Rightarrow> string \<Rightarrow> fs \<Rightarrow> string \<Rightarrow> string" where
  "chosen_file E pp fs f = (if path_exists (cwd E) fs f then f else path_join pp f)"

definition loop_cmd :: "env \<Rightarrow> string \<Rightarrow> string \<Rightarrow> fs \<Rightarrow> string \<Rightarrow> string list" where
  "loop_cmd E pp od fs f = protoc_cmd E pp od (chosen_file E pp fs f)"

fun loop_events :: "env \<Rightarrow> string \<Rightarrow> string \<Rightarrow> string list \<Rightarrow> fs \<Rightarrow> event list" where
  "loop_events E pp od [] fs = []"
| "loop_events E pp od (f # rest) fs =
     Exists f (path_exists (cwd E) fs f)
     # CheckCall (loop_cmd E pp od fs f) (fst (protoc E (loop_cmd E pp od fs f) fs))
     # (if fst (protoc E (loop_cmd E pp od fs f) fs) = 0
        then loop_events E pp od rest (snd (protoc E (loop_cmd E pp od fs f) fs))
        else [])"

definition gen_files :: "env \<Rightarrow> string \<Rightarrow> string list option \<Rightarrow> fs \<Rightarrow> string list" where
  "gen_files E pp pf fs =
     (case pf of None \<Rightarrow> glob_star_proto E fs (path_join pp ''*.proto'') | Some fl \<Rightarrow> fl)"

definition gen_prefix :: "string \<Rightarrow> string \<Rightarrow> string list option \<Rightarrow> event list" where
  "gen_prefix pp od pf =
     (case pf of None \<Rightarrow> [Glob (path_join pp ''*.proto'')] | Some fl \<Rightarrow> []) @ [Makedirs od]"

definition gen_events :: "env \<Rightarrow> string \<Rightarrow> string \<Rightarrow> string list option \<Rightarrow> fs \<Rightarrow> event list" where
  "gen_events E pp od pf fs =
     gen_prefix pp od pf
     @ (case fst (makedirs (cwd E) fs od) of
          Inl e \<Rightarrow> []
        | Inr u \<Rightarrow> loop_events E pp od (gen_files E pp pf fs) (snd (makedirs (cwd E) fs od)))"

text \<open>A subprocess event with a non-zero exit status.\<close>

fun failed :: "event \<Rightarrow> bool" where
  "failed (CheckCall cmd rc) = (rc \<noteq> 0)"
| "failed ev = False"

text \<open>The three path literals of \<^verbatim>\<open>run\<close>.\<close>

definition ir_proto_path :: string where
  "ir_proto_path = ''../../../../interactive_engine/executor/ir/proto/''"

definition error_proto_path :: string where
  "error_proto_path = ''../../../../proto/error''"

definition generated_dir :: string where
  "generated_dir = ''./gs_interactive/client/generated/''"

text \<open>
  An argument that asks \<^verbatim>\<open>grpc_tools.protoc\<close> for gRPC stubs is the plugin option
  \<^verbatim>\<open>--grpc_python_out\<close>.
\<close>

definition is_grpc_out_option :: "string \<Rightarrow> bool" where
  "is_grpc_out_option a = (take 17 a = ''--grpc_python_out'')"

definition requests_grpc_stubs :: "string list \<Rightarrow> bool" where
  "requests_grpc_stubs cmd = list_ex is_grpc_out_option cmd"

subsection \<open>Concrete environments\<close>

text \<open>
  Two compilers that leave the file system alone: one always exits with status 0, one
  always with status 1.
\<close>

definition compiler_ok :: "string list \<Rightarrow> fs \<Rightarrow> int \<times> fs" where
  "compiler_ok cmd fs = (0, fs)"

definition compiler_fails :: "string list \<Rightarrow> fs \<Rightarrow> int \<times> fs" where
  "compiler_fails cmd fs = (1, fs)"

definition no_glob_dirs :: "fs \<Rightarrow> string \<Rightarrow> string list" where
  "no_glob_dirs fs d = []"

text \<open>
  A small working directory \<^verbatim>\<open>/w\<close> with a directory \<^verbatim>\<open>p\<close> of two proto files.
\<close>

definition small_fs :: fs where
  "small_fs =
     [([''w''], Directory),
      ([''w'', ''p''], Directory),
      ([''w'', ''p'', ''a.proto''], RegularFile),
      ([''w'', ''p'', ''b.proto''], RegularFile)]"

definition small_fs_out :: fs where
  "small_fs_out = small_fs @ [([''w'', ''out''], Directory)]"

definition small_env :: env where
  "small_env =
     \<lparr>executable = ''python3'', cwd = [''w''], protoc = compiler_ok, glob_dirs = no_glob_dirs\<rparr>"

definition small_world :: world where
  "small_world = \<lparr>fsys = small_fs, trace = []\<rparr>"

text \<open>
  The layout of the repository around the SDK, with two proto files in the directory of
  the first call of \<^verbatim>\<open>run\<close>; the working directory is the SDK's.
\<close>

definition repo_fs :: fs where
  "repo_fs =
     [([''GraphScope''], Directory),
      ([''GraphScope'', ''flex''], Directory),
      ([''GraphScope'', ''flex'', ''interactive''], Directory),
      ([''GraphScope'', ''flex'', ''interactive'', ''sdk''], Directory),
      ([''GraphScope'', ''flex'', ''interactive'', ''sdk'', ''python''], Directory),
      ([''GraphScope'', ''interactive_engine''], Directory),
      ([''GraphScope'', ''interactive_engine'', ''executor''], Directory),
      ([''GraphScope'', ''interactive_engine'', ''executor'', ''ir''], Directory),
      ([''GraphScope'', ''interactive_engine'', ''executor'', ''ir'', ''proto''], Directory),
      ([''GraphScope'', ''interactive_engine'', ''executor'', ''ir'', ''proto'', ''common.proto''],
       RegularFile),
      ([''GraphScope'', ''interactive_engine'', ''executor'', ''ir'', ''proto'', ''results.proto''],
       RegularFile),
      ([''GraphScope'', ''proto''], Directory),
      ([''GraphScope'', ''proto'', ''error''], Directory),
      ([''GraphScope'', ''proto'', ''error'', ''interactive.proto''], RegularFile)]"

definition repo_fs_out :: fs where
  "repo_fs_out =
     repo_fs @
     [([''GraphScope'', ''flex'', ''interactive'', ''sdk'', ''python'', ''gs_interactive''], Directory),
      ([''GraphScope'', ''flex'', ''interactive'', ''sdk'', ''python'', ''gs_interactive'', ''client''],
       Directory),
      ([''GraphScope'', ''flex'', ''interactive'', ''sdk'', ''python'', ''gs_interactive'', ''client'',
        ''generated''], Directory)]"

definition repo_cwd :: "string list" where
  "repo_cwd = [''GraphScope'', ''flex'', ''interactive'', ''sdk'', ''python'']"

definition repo_env :: env where
  "repo_env =
     \<lparr>executable = ''python3'', cwd = repo_cwd, protoc = compiler_ok, glob_dirs = no_glob_dirs\<rparr>"

definition repo_world :: world where
  "repo_world = \<lparr>fsys = repo_fs, trace = []\<rparr>"

text \<open>The command line \<^verbatim>\<open>run\<close> builds under \<open>repo_env\<close>.\<close>

definition repo_cmd :: "string \<Rightarrow> string \<Rightarrow> string list" where
  "repo_cmd pp f =
     [''python3'', ''-m'', ''grpc_tools.protoc'', ''-I'', pp,
      ''--python_out=./gs_interactive/client/generated/'',
      ''--mypy_out=./gs_interactive/client/generated/'', f]"

text \<open>The same environments with the compiler that fails.\<close>

definition small_fail_env :: env where
  "small_fail_env =
     \<lparr>executable = ''python3'', cwd = [''w''], protoc = compiler_fails, glob_dirs = no_glob_dirs\<rparr>"

definition repo_fail_env :: env where
  "repo_fail_env =
     \<lparr>executable = ''python3'', cwd = repo_cwd, protoc = compiler_fails, glob_dirs = no_glob_dirs\<rparr>"

text \<open>The command line \<^verbatim>\<open>generate_proto\<close> builds for \<^verbatim>\<open>p\<close> and \<^verbatim>\<open>out\<close>.\<close>

definition small_cmd :: "string \<Rightarrow> string list" where
  "small_cmd f =
     [''python3'', ''-m'', ''grpc_tools.protoc'', ''-I'', ''p'',
      ''--python_out=out'', ''--mypy_out=out'', f]"

text \<open>The small world after \<^verbatim>\<open>generate_proto\<close> has compiled the one entry \<^verbatim>\<open>p/a.proto\<close>.\<close>

definition small_world_a :: world where
  "small_world_a =
     \<lparr>fsys = small_fs_out,
      trace = [Makedirs ''out'', Exists ''p/a.proto'' True, CheckCall (small_cmd ''p/a.proto'') 0]\<rparr>"




subsection \<open>Words for the statements about glob\<close>

text \<open>
  A name that \<^verbatim>\<open>glob\<close> selects for the pattern \<^verbatim>\<open>*.proto\<close>; a name that a directory
  entry can have; a file system all of whose entries have such names; and the directory
  part that \<^verbatim>\<open>glob\<close> joins each selected name with: \<open>proto_path\<close> without its trailing
  slashes (a path of slashes only is kept).
\<close>

definition matches_star_proto :: "string \<Rightarrow> bool" where
  "matches_star_proto n = (\<not> ishidden n \<and> fnmatch_star_proto n)"



definition proto_dir :: "string \<Rightarrow> string" where
  "proto_dir pp = (if list_all (\<lambda>c. c = CHR ''/'') pp then pp else rstrip_slash pp)"







section \<open>The Protocol Dispatcher of the specification\<close>

text \<open>
  The specification describes a Protocol Dispatcher with an operation \<^verbatim>\<open>invoke\<close>; the
  sources hold no code of it. The definitions of this section follow the sentences of the
  specification: the dispatcher sends the request over the transport and decodes the
  response; it retries idempotent operations on transient transport failure up to a fixed
  bound; non-idempotent operations surface failure immediately; exhaustion surfaces
  \<^verbatim>\<open>TransportError\<close> to the caller.
\<close>

text \<open>
  Modelled from the spec: the outcome of one send over the transport, which the
  Protocol Dispatcher (missing from the sources) looks at: a decoded response, or a
  transient transport failure.
\<close>

datatype 'r attempt = Response 'r | TransientFailure

text \<open>
  Modelled from the spec: the error of the taxonomy that the Protocol Dispatcher (missing
  from the sources) surfaces to the caller.
\<close>

datatype dispatch_error = TransportError

text \<open>
  Modelled from the spec: the retry loop of the Protocol Dispatcher (missing from the
  sources). The transport is given by what its sends bring, the send now due being number
  \<open>k\<close>; \<open>retries_left\<close> of the fixed bound remain. The result is the response or the
  error, together with the number of sends made so far. The waiting time between two
  sends (the backoff) is not part of the model.
\<close>

fun send_with_retries ::
  "nat \<Rightarrow> bool \<Rightarrow> (nat \<Rightarrow> 'r attempt) \<Rightarrow> nat \<Rightarrow> (dispatch_error + 'r) \<times> nat" where
  "send_with_retries 0 idempotent transport k =
     (case transport k of
        Response r \<Rightarrow> (Inr r, Suc k)
      | TransientFailure \<Rightarrow> (Inl TransportError, Suc k))"
| "send_with_retries (Suc retries_left) idempotent transport k =
     (case transport k of
        Response r \<Rightarrow> (Inr r, Suc k)
      | TransientFailure \<Rightarrow>
          if idempotent then send_with_retries retries_left idempotent transport (Suc k)
          else (Inl TransportError, Suc k))"

text \<open>
  Modelled from the spec: \<^verbatim>\<open>invoke\<close> of the Protocol Dispatcher (missing from the
  sources), for an operation that is idempotent or not, with the fixed bound
  \<open>max_retries\<close> on the retries, starting with the first send.
\<close>

definition invoke ::
  "nat \<Rightarrow> bool \<Rightarrow> (nat \<Rightarrow> 'r attempt) \<Rightarrow> (dispatch_error + 'r) \<times> nat" where
  "invoke max_retries idempotent transport = send_with_retries max_retries idempotent transport 0"

text \<open>A transport that fails once and then answers, and one that always fails.\<close>

definition fails_once :: "nat \<Rightarrow> string attempt" where
  "fails_once k = (if k = 0 then TransientFailure else Response ''v1'')"

definition always_fails :: "nat \<Rightarrow> string attempt" where
  "always_fails k = TransientFailure"

section \<open>Properties\<close>

subsection \<open>The log of a call\<close>

lemma check_call_eq:
  "check_call E cmd w =
     (if fst (protoc E cmd (fsys w)) = 0 then Inr ()
      else Inl (CalledProcessError (fst (protoc E cmd (fsys w))) cmd),
      \<lparr>fsys = snd (protoc E cmd (fsys w)),
       trace = trace w @ [CheckCall cmd (fst (protoc E cmd (fsys w)))]\<rparr>)"
  by (cases "protoc E cmd (fsys w)") (simp add: check_call_def log_event_def)

lemma compile_loop_Cons:
  "compile_loop E pp od (f # rest) w =
     (if fst (protoc E (loop_cmd E pp od (fsys w) f) (fsys w)) = 0
      then compile_loop E pp od rest
             \<lparr>fsys = snd (protoc E (loop_cmd E pp od (fsys w) f) (fsys w)),
              trace = trace w @ [Exists f (path_exists (cwd E) (fsys w) f),
                                 CheckCall (loop_cmd E pp od (fsys w) f) 0]\<rparr>
      else (Inl (CalledProcessError (fst (protoc E (loop_cmd E pp od (fsys w) f) (fsys w)))
                   (loop_cmd E pp od (fsys w) f)),
            \<lparr>fsys = snd (protoc E (loop_cmd E pp od (fsys w) f) (fsys w)),
             trace = trace w @ [Exists f (path_exists (cwd E) (fsys w) f),
                                CheckCall (loop_cmd E pp od (fsys w) f)
                                  (fst (protoc E (loop_cmd E pp od (fsys w) f) (fsys w)))]\<rparr>))"
  by (simp add: check_call_eq log_event_def chosen_file_def loop_cmd_def Let_def)

declare compile_loop.simps(2) [simp del]

lemma compile_loop_trace:
  "trace (snd (compile_loop E pp od fl w)) = trace w @ loop_events E pp od fl (fsys w)"
proof (induction fl arbitrary: w)
  case Nil
  show ?case by simp
next
  case (Cons f fl)
  show ?case
    by (simp only: compile_loop_Cons loop_events.simps Cons.IH split: if_split) simp
qed

lemma os_makedirs_eq:
  "os_makedirs E name w =
     (fst (makedirs (cwd E) (fsys w) name),
      \<lparr>fsys = snd (makedirs (cwd E) (fsys w) name), trace = trace w @ [Makedirs name]\<rparr>)"
  by (cases "makedirs (cwd E) (fsys w) name") (simp add: os_makedirs_def log_event_def)

lemma generate_proto_eq:
  "generate_proto E pp od pf w =
     (case fst (makedirs (cwd E) (fsys w) od) of
        Inl e \<Rightarrow> (Inl e, \<lparr>fsys = snd (makedirs (cwd E) (fsys w) od),
                          trace = trace w @ gen_prefix pp od pf\<rparr>)
      | Inr u \<Rightarrow> compile_loop E pp od (gen_files E pp pf (fsys w))
                  \<lparr>fsys = snd (makedirs (cwd E) (fsys w) od),
                   trace = trace w @ gen_prefix pp od pf\<rparr>)"
  by (cases pf; cases "fst (makedirs (cwd E) (fsys w) od)")
     (simp_all add: generate_proto_def os_makedirs_eq log_event_def gen_files_def gen_prefix_def)

lemma generate_proto_trace:
  "trace (snd (generate_proto E pp od pf w)) = trace w @ gen_events E pp od pf (fsys w)"
  by (cases "fst (makedirs (cwd E) (fsys w) od)")
     (simp_all add: generate_proto_eq gen_events_def compile_loop_trace)

lemma generate_proto_new_events:
  "new_events w (snd (generate_proto E pp od pf w)) = gen_events E pp od pf (fsys w)"
  by (simp add: new_events_def generate_proto_trace)

lemma commands_append: "commands (xs @ ys) = commands xs @ commands ys"
  by (induction xs rule: commands.induct) simp_all

lemma commands_gen_prefix: "commands (gen_prefix pp od pf) = []"
  by (cases pf) (simp_all add: gen_prefix_def)

lemma loop_events_commands_shape:
  "cmd \<in> set (commands (loop_events E pp od fl fs)) \<Longrightarrow> \<exists>f. cmd = protoc_cmd E pp od f"
proof (induction fl arbitrary: fs)
  case Nil
  then show ?case by simp
next
  case (Cons f fl)
  then show ?case
    by (auto simp: loop_cmd_def split: if_splits)
qed

lemma gen_events_commands_shape:
  "cmd \<in> set (commands (gen_events E pp od pf fs)) \<Longrightarrow> \<exists>f. cmd = protoc_cmd E pp od f"
  by (cases "fst (makedirs (cwd E) fs od)")
     (auto simp: gen_events_def commands_append commands_gen_prefix dest: loop_events_commands_shape)

lemma loop_events_count_le:
  "length (commands (loop_events E pp od fl fs)) \<le> length fl"
  by (induction fl arbitrary: fs) simp_all

lemma compile_loop_ok_count:
  "fst (compile_loop E pp od fl w) = Inr () \<Longrightarrow>
   length (commands (loop_events E pp od fl (fsys w))) = length fl"
proof (induction fl arbitrary: w)
  case Nil
  show ?case by simp
next
  case (Cons f fl)
  from Cons.prems have z: "fst (protoc E (loop_cmd E pp od (fsys w) f) (fsys w)) = 0"
    by (simp add: compile_loop_Cons split: if_splits)
  with Cons.prems have "fst (compile_loop E pp od fl
             \<lparr>fsys = snd (protoc E (loop_cmd E pp od (fsys w) f) (fsys w)),
              trace = trace w @ [Exists f (path_exists (cwd E) (fsys w) f),
                                 CheckCall (loop_cmd E pp od (fsys w) f) 0]\<rparr>) = Inr ()"
    by (simp add: compile_loop_Cons)
  from Cons.IH [OF this] z show ?case by simp
qed

lemma generate_proto_ok_makedirs:
  "fst (generate_proto E pp od pf w) = Inr () \<Longrightarrow> fst (makedirs (cwd E) (fsys w) od) = Inr ()"
  by (cases "fst (makedirs (cwd E) (fsys w) od)") (simp_all add: generate_proto_eq)

lemma gen_events_count_le:
  "length (commands (gen_events E pp od pf fs)) \<le> length (gen_files E pp pf fs)"
  by (cases "fst (makedirs (cwd E) fs od)")
     (simp_all add: gen_events_def commands_append commands_gen_prefix loop_events_count_le)

lemma generate_proto_ok_count:
  assumes "fst (generate_proto E pp od pf w) = Inr ()"
  shows "length (commands (gen_events E pp od pf (fsys w))) = length (gen_files E pp pf (fsys w))"
proof -
  have m: "fst (makedirs (cwd E) (fsys w) od) = Inr ()"
    using assms by (rule generate_proto_ok_makedirs)
  with assms have "fst (compile_loop E pp od (gen_files E pp pf (fsys w))
                  \<lparr>fsys = snd (makedirs (cwd E) (fsys w) od),
                   trace = trace w @ gen_prefix pp od pf\<rparr>) = Inr ()"
    by (simp add: generate_proto_eq)
  from compile_loop_ok_count [OF this] m show ?thesis
    by (simp add: gen_events_def commands_append commands_gen_prefix)
qed

lemma run_eq:
  "run E w =
     (case fst (generate_proto E ir_proto_path generated_dir None w) of
        Inl e \<Rightarrow> generate_proto E ir_proto_path generated_dir None w
      | Inr u \<Rightarrow> generate_proto E error_proto_path generated_dir (Some [''interactive.proto''])
                  (snd (generate_proto E ir_proto_path generated_dir None w)))"
  by (cases "generate_proto E ir_proto_path generated_dir None w";
      cases "fst (generate_proto E ir_proto_path generated_dir None w)")
     (simp_all add: run_def ir_proto_path_def error_proto_path_def generated_dir_def)

lemma run_trace:
  "trace (snd (run E w)) =
     trace w @ gen_events E ir_proto_path generated_dir None (fsys w)
     @ (case fst (generate_proto E ir_proto_path generated_dir None w) of
          Inl e \<Rightarrow> []
        | Inr u \<Rightarrow> gen_events E error_proto_path generated_dir (Some [''interactive.proto''])
                    (fsys (snd (generate_proto E ir_proto_path generated_dir None w))))"
  by (cases "fst (generate_proto E ir_proto_path generated_dir None w)")
     (simp_all add: run_eq generate_proto_trace)

lemma run_new_events:
  "new_events w (snd (run E w)) =
     gen_events E ir_proto_path generated_dir None (fsys w)
     @ (case fst (generate_proto E ir_proto_path generated_dir None w) of
          Inl e \<Rightarrow> []
        | Inr u \<Rightarrow> gen_events E error_proto_path generated_dir (Some [''interactive.proto''])
                    (fsys (snd (generate_proto E ir_proto_path generated_dir None w))))"
  by (simp add: new_events_def run_trace)

lemma loop_events_commands_files:
  "cmd \<in> set (commands (loop_events E pp od fl fs)) \<Longrightarrow>
   \<exists>f \<in> set fl. cmd = protoc_cmd E pp od f \<or> cmd = protoc_cmd E pp od (path_join pp f)"
proof (induction fl arbitrary: fs)
  case Nil
  then show ?case by simp
next
  case (Cons f fl)
  then show ?case
    by (auto simp: loop_cmd_def chosen_file_def split: if_splits)
qed

lemma gen_events_commands_files:
  "cmd \<in> set (commands (gen_events E pp od pf fs)) \<Longrightarrow>
   \<exists>f \<in> set (gen_files E pp pf fs). cmd = protoc_cmd E pp od f \<or> cmd = protoc_cmd E pp od (path_join pp f)"
  by (cases "fst (makedirs (cwd E) fs od)")
     (auto simp: gen_events_def commands_append commands_gen_prefix dest: loop_events_commands_files)

lemma Makedirs_loop_events: "Makedirs name \<notin> set (loop_events E pp od fl fs)"
  by (induction fl arbitrary: fs) simp_all

lemma Makedirs_gen_events:
  "Makedirs name \<in> set (gen_events E pp od pf fs) \<Longrightarrow> name = od"
  by (cases "fst (makedirs (cwd E) fs od)"; cases pf)
     (auto simp: gen_events_def gen_prefix_def Makedirs_loop_events)

lemma ir_dirname:
  "fst (path_split (path_join ir_proto_path ''*.proto''))
     = ''../../../../interactive_engine/executor/ir/proto''"
  by code_simp

lemma path_join_hd:
  "a \<noteq> [] \<Longrightarrow> path_join a b \<noteq> [] \<and> (hd (path_join a b) = hd a \<or> hd (path_join a b) = CHR ''/'')"
  by (auto simp: path_join_def)

lemma ir_glob_hd:
  assumes "g \<in> set (glob_star_proto E fs (path_join ir_proto_path ''*.proto''))"
  shows "g \<noteq> [] \<and> (hd g = CHR ''.'' \<or> hd g = CHR ''/'')"
proof -
  have nm: "\<not> has_magic ''../../../../interactive_engine/executor/ir/proto''"
    by code_simp
  from assms obtain n where "g = path_join ''../../../../interactive_engine/executor/ir/proto'' n"
    by (auto simp: glob_star_proto_def ir_dirname nm Let_def)
  then show ?thesis
    using path_join_hd [of "''../../../../interactive_engine/executor/ir/proto''" n] by simp
qed

lemma error_join: "path_join error_proto_path ''interactive.proto'' = ''../../../../proto/error/interactive.proto''"
  by code_simp

subsection \<open>Failing subprocesses\<close>

lemma loop_events_failed_last:
  "list_all (\<lambda>ev. \<not> failed ev) (butlast (loop_events E pp od fl fs))"
  by (induction fl arbitrary: fs) simp_all

lemma compile_loop_ok_no_failed:
  "fst (compile_loop E pp od fl w) = Inr () \<Longrightarrow>
   list_all (\<lambda>ev. \<not> failed ev) (loop_events E pp od fl (fsys w))"
proof (induction fl arbitrary: w)
  case Nil
  show ?case by simp
next
  case (Cons f fl)
  from Cons.prems have z: "fst (protoc E (loop_cmd E pp od (fsys w) f) (fsys w)) = 0"
    by (simp add: compile_loop_Cons split: if_splits)
  with Cons.prems have "fst (compile_loop E pp od fl
             \<lparr>fsys = snd (protoc E (loop_cmd E pp od (fsys w) f) (fsys w)),
              trace = trace w @ [Exists f (path_exists (cwd E) (fsys w) f),
                                 CheckCall (loop_cmd E pp od (fsys w) f) 0]\<rparr>) = Inr ()"
    by (simp add: compile_loop_Cons)
  from Cons.IH [OF this] z show ?case by simp
qed

lemma compile_loop_failed_result:
  "loop_events E pp od fl (fsys w) \<noteq> [] \<Longrightarrow>
   last (loop_events E pp od fl (fsys w)) = CheckCall cmd rc \<Longrightarrow> rc \<noteq> 0 \<Longrightarrow>
   fst (compile_loop E pp od fl w) = Inl (CalledProcessError rc cmd)"
proof (induction fl arbitrary: w)
  case Nil
  then show ?case by simp
next
  case (Cons f fl)
  let ?c = "loop_cmd E pp od (fsys w) f"
  let ?r = "fst (protoc E ?c (fsys w))"
  let ?w2 = "\<lparr>fsys = snd (protoc E ?c (fsys w)),
              trace = trace w @ [Exists f (path_exists (cwd E) (fsys w) f), CheckCall ?c 0]\<rparr>"
  show ?case
  proof (cases "?r = 0")
    case False
    with Cons.prems(2) have "cmd = ?c" "rc = ?r"
      by auto
    with False show ?thesis
      by (simp add: compile_loop_Cons)
  next
    case True
    have ne: "loop_events E pp od fl (fsys ?w2) \<noteq> []"
    proof
      assume "loop_events E pp od fl (fsys ?w2) = []"
      with True Cons.prems(2) have "rc = 0" by simp
      with Cons.prems(3) show False by simp
    qed
    with True Cons.prems(2) have "last (loop_events E pp od fl (fsys ?w2)) = CheckCall cmd rc"
      by simp
    from Cons.IH [OF ne this Cons.prems(3)] True show ?thesis
      by (simp add: compile_loop_Cons)
  qed
qed

lemma gen_prefix_not_failed: "list_all (\<lambda>ev. \<not> failed ev) (gen_prefix pp od pf)"
  by (cases pf) (simp_all add: gen_prefix_def)

lemma gen_prefix_ne: "gen_prefix pp od pf \<noteq> []"
  by (simp add: gen_prefix_def)

lemma gen_events_ne: "gen_events E pp od pf fs \<noteq> []"
  by (simp add: gen_events_def gen_prefix_ne)

lemma gen_events_failed_last:
  "list_all (\<lambda>ev. \<not> failed ev) (butlast (gen_events E pp od pf fs))"
  using gen_prefix_not_failed [of pp od pf] loop_events_failed_last [of E pp od "gen_files E pp pf fs" "snd (makedirs (cwd E) fs od)"]
  by (cases "fst (makedirs (cwd E) fs od)")
     (auto simp: gen_events_def butlast_append list_all_iff dest: in_set_butlastD)

lemma generate_proto_ok_no_failed:
  assumes "fst (generate_proto E pp od pf w) = Inr ()"
  shows "list_all (\<lambda>ev. \<not> failed ev) (gen_events E pp od pf (fsys w))"
proof -
  have m: "fst (makedirs (cwd E) (fsys w) od) = Inr ()"
    using assms by (rule generate_proto_ok_makedirs)
  with assms have "fst (compile_loop E pp od (gen_files E pp pf (fsys w))
                  \<lparr>fsys = snd (makedirs (cwd E) (fsys w) od),
                   trace = trace w @ gen_prefix pp od pf\<rparr>) = Inr ()"
    by (simp add: generate_proto_eq)
  from compile_loop_ok_no_failed [OF this] m gen_prefix_not_failed [of pp od pf] show ?thesis
    by (simp add: gen_events_def)
qed

lemma generate_proto_failed_result:
  assumes "last (gen_events E pp od pf (fsys w)) = CheckCall cmd rc" and "rc \<noteq> 0"
  shows "fst (generate_proto E pp od pf w) = Inl (CalledProcessError rc cmd)"
proof (cases "fst (makedirs (cwd E) (fsys w) od)")
  case (Inl e)
  with assms(1) have "last (gen_prefix pp od pf) = CheckCall cmd rc"
    by (simp add: gen_events_def)
  then show ?thesis
    by (simp add: gen_prefix_def)
next
  case (Inr u)
  let ?w1 = "\<lparr>fsys = snd (makedirs (cwd E) (fsys w) od), trace = trace w @ gen_prefix pp od pf\<rparr>"
  have ne: "loop_events E pp od (gen_files E pp pf (fsys w)) (fsys ?w1) \<noteq> []"
  proof
    assume "loop_events E pp od (gen_files E pp pf (fsys w)) (fsys ?w1) = []"
    with Inr assms(1) have "last (gen_prefix pp od pf) = CheckCall cmd rc"
      by (simp add: gen_events_def)
    then show False
      by (simp add: gen_prefix_def)
  qed
  with Inr assms(1) have "last (loop_events E pp od (gen_files E pp pf (fsys w)) (fsys ?w1)) = CheckCall cmd rc"
    by (simp add: gen_events_def)
  from compile_loop_failed_result [OF ne this assms(2)] Inr show ?thesis
    by (simp add: generate_proto_eq)
qed

lemma failed_only_last:
  assumes "list_all (\<lambda>ev. \<not> failed ev) (butlast evs)" and "evs = evs1 @ ev # evs2" and "failed ev"
  shows "evs2 = []"
proof (rule ccontr)
  assume "evs2 \<noteq> []"
  then have "butlast evs = evs1 @ ev # butlast evs2"
    using assms(2) by (simp add: butlast_append)
  with assms(1) assms(3) show False
    by simp
qed

lemma run_events_failed_last:
  "list_all (\<lambda>ev. \<not> failed ev) (butlast (new_events w (snd (run E w))))"
proof (cases "fst (generate_proto E ir_proto_path generated_dir None w)")
  case (Inl e)
  then show ?thesis
    by (simp add: run_new_events gen_events_failed_last)
next
  case (Inr u)
  then have "fst (generate_proto E ir_proto_path generated_dir None w) = Inr ()"
    by simp
  from generate_proto_ok_no_failed [OF this] Inr
    gen_events_failed_last [of E error_proto_path generated_dir "Some [''interactive.proto'']"
       "fsys (snd (generate_proto E ir_proto_path generated_dir None w))"]
  show ?thesis
    by (simp add: run_new_events butlast_append gen_events_ne)
qed

lemma run_failed_result:
  assumes "last (new_events w (snd (run E w))) = CheckCall cmd rc" and "rc \<noteq> 0"
  shows "fst (run E w) = Inl (CalledProcessError rc cmd)"
proof (cases "fst (generate_proto E ir_proto_path generated_dir None w)")
  case (Inl e)
  with assms(1) have "last (gen_events E ir_proto_path generated_dir None (fsys w)) = CheckCall cmd rc"
    by (simp add: run_new_events)
  from generate_proto_failed_result [OF this assms(2)] Inl show ?thesis
    by (simp add: run_eq)
next
  case (Inr u)
  with assms(1) have "last (gen_events E error_proto_path generated_dir (Some [''interactive.proto''])
       (fsys (snd (generate_proto E ir_proto_path generated_dir None w)))) = CheckCall cmd rc"
    by (simp add: run_new_events gen_events_ne)
  from generate_proto_failed_result [OF this assms(2)] Inr show ?thesis
    by (simp add: run_eq)
qed

subsection \<open>The loop over a list in two parts\<close>

lemma compile_loop_append:
  "compile_loop E pp od (xs @ ys) w =
     (case fst (compile_loop E pp od xs w) of
        Inl e \<Rightarrow> compile_loop E pp od xs w
      | Inr u \<Rightarrow> compile_loop E pp od ys (snd (compile_loop E pp od xs w)))"
proof (induction xs arbitrary: w)
  case Nil
  show ?case by simp
next
  case (Cons f xs)
  show ?case
  proof (cases "fst (protoc E (loop_cmd E pp od (fsys w) f) (fsys w)) = 0")
    case True
    define w2 where "w2 = \<lparr>fsys = snd (protoc E (loop_cmd E pp od (fsys w) f) (fsys w)),
              trace = trace w @ [Exists f (path_exists (cwd E) (fsys w) f),
                                 CheckCall (loop_cmd E pp od (fsys w) f) 0]\<rparr>"
    have step: "compile_loop E pp od (f # zs) w = compile_loop E pp od zs w2" for zs
      using True by (simp add: compile_loop_Cons w2_def)
    show ?thesis
      by (simp only: append_Cons step Cons.IH)
  next
    case False
    have stop: "fst (compile_loop E pp od (f # zs) w) = Inl (CalledProcessError
                   (fst (protoc E (loop_cmd E pp od (fsys w) f) (fsys w))) (loop_cmd E pp od (fsys w) f))"
      and same: "compile_loop E pp od (f # zs) w = compile_loop E pp od [f] w" for zs
      using False by (simp_all add: compile_loop_Cons)
    show ?thesis
      using same [of "xs @ ys"] same [of xs] stop [of xs] by simp
  qed
qed

subsection \<open>Paths, their heads, and makedirs on an existing directory\<close>

lemma split_slash_ne: "split_slash s \<noteq> []"
  by (induction s) (auto split: list.splits)

lemma split_slash_append_slash:
  "split_slash (a @ CHR ''/'' # b) = split_slash a @ split_slash b"
proof (induction a)
  case Nil
  show ?case by simp
next
  case (Cons c a)
  show ?case
  proof (cases "c = CHR ''/''")
    case True
    with Cons show ?thesis by simp
  next
    case False
    obtain x xs where sa: "split_slash a = x # xs"
      using split_slash_ne [of a] by (cases "split_slash a") auto
    with False Cons show ?thesis by simp
  qed
qed


lemma walk_append:
  "walk fs cur (xs @ ys) =
     (case walk fs cur xs of Inl e \<Rightarrow> Inl e | Inr c \<Rightarrow> walk fs c ys)"
  by (induction xs arbitrary: cur) (simp_all split: sum.splits)



lemma slashes_replicate:
  "list_all (\<lambda>c. c = CHR ''/'') s \<Longrightarrow> s = replicate (length s) CHR ''/''"
  by (induction s) simp_all










subsection \<open>What a call does to the file system\<close>

lemma compile_loop_fsys:
  "fsys (snd (compile_loop E pp od fl w))
     = foldl (\<lambda>fs cmd. snd (protoc E cmd fs)) (fsys w) (commands (loop_events E pp od fl (fsys w)))"
proof (induction fl arbitrary: w)
  case Nil
  show ?case by simp
next
  case (Cons f fl)
  show ?case
    by (simp add: compile_loop_Cons Cons.IH)
qed

lemma generate_proto_fsys:
  "fsys (snd (generate_proto E pp od pf w))
     = foldl (\<lambda>fs cmd. snd (protoc E cmd fs)) (snd (makedirs (cwd E) (fsys w) od))
         (commands (gen_events E pp od pf (fsys w)))"
  by (cases "fst (makedirs (cwd E) (fsys w) od)")
     (simp_all add: generate_proto_eq gen_events_def commands_append commands_gen_prefix
        compile_loop_fsys)

lemma mkdir_exist_ok_adds:
  "\<exists>added. snd (mkdir_exist_ok wd fs name) = fs @ added \<and> (\<forall>e \<in> set added. snd e = Directory)"
proof (cases "mkdir wd fs name")
  case (Inl e)
  then show ?thesis
    by (simp add: mkdir_exist_ok_def)
next
  case (Inr fs')
  then obtain q where "fs' = fs @ [(q, Directory)]"
    by (auto simp: mkdir_def Let_def split: if_splits sum.splits)
  with Inr show ?thesis
    by (simp add: mkdir_exist_ok_def)
qed

lemma makedirs_adds_directories:
  "\<exists>added. snd (makedirs wd fs name) = fs @ added \<and> (\<forall>e \<in> set added. snd e = Directory)"
proof (induction wd fs name rule: makedirs.induct)
  case (1 wd fs name)
  let ?head = "fst (makedirs_split name)"
  let ?tail = "snd (makedirs_split name)"
  show ?case
  proof (cases "?head \<noteq> [] \<and> ?tail \<noteq> [] \<and> \<not> path_exists wd fs ?head")
    case False
    then have "makedirs wd fs name = mkdir_exist_ok wd fs name"
      by (subst makedirs.simps) (simp only: if_False)
    then show ?thesis
      using mkdir_exist_ok_adds [of wd fs name] by simp
  next
    case True
    from "1.IH" [OF True] obtain a1
      where a1: "snd (makedirs wd fs ?head) = fs @ a1" "\<forall>e \<in> set a1. snd e = Directory"
      by blast
    obtain r fs1 where r: "makedirs wd fs ?head = (r, fs1)"
      by (cases "makedirs wd fs ?head")
    with a1 have fs1: "fs1 = fs @ a1" by simp
    have unfold: "makedirs wd fs name =
        (case (r, fs1) of
              (Inl e, fs1) \<Rightarrow>
                 if is_FileExistsError e
                 then (if ?tail = ''.'' then (Inr (), fs1) else mkdir_exist_ok wd fs1 name)
                 else (Inl e, fs1)
            | (Inr u, fs1) \<Rightarrow>
                 if ?tail = ''.'' then (Inr (), fs1) else mkdir_exist_ok wd fs1 name)"
      using True by (subst makedirs.simps) (simp add: r)
    from mkdir_exist_ok_adds [of wd fs1 name] obtain a2
      where a2: "snd (mkdir_exist_ok wd fs1 name) = fs1 @ a2" "\<forall>e \<in> set a2. snd e = Directory"
      by blast
    have "snd (makedirs wd fs name) = fs1 \<or> snd (makedirs wd fs name) = fs1 @ a2"
      using a2(1) by (cases r) (auto simp: unfold)
    then show ?thesis
    proof
      assume "snd (makedirs wd fs name) = fs1"
      with fs1 a1(2) show ?thesis by blast
    next
      assume "snd (makedirs wd fs name) = fs1 @ a2"
      then have "snd (makedirs wd fs name) = fs @ (a1 @ a2)"
        using fs1 by simp
      moreover have "\<forall>e \<in> set (a1 @ a2). snd e = Directory"
        using a1(2) a2(2) by auto
      ultimately show ?thesis by blast
    qed
  qed
qed

lemma Glob_loop_events: "Glob x \<notin> set (loop_events E pp od fl fs)"
  by (induction fl arbitrary: fs) simp_all

lemma Exists_loop_events: "Exists f b \<in> set (loop_events E pp od fl fs) \<Longrightarrow> f \<in> set fl"
  by (induction fl arbitrary: fs) (auto split: if_splits)

lemma Glob_gen_events:
  "Glob x \<in> set (gen_events E pp od pf fs) \<Longrightarrow> x = path_join pp ''*.proto'' \<and> pf = None"
  by (cases "fst (makedirs (cwd E) fs od)"; cases pf)
     (auto simp: gen_events_def gen_prefix_def Glob_loop_events)

lemma Exists_gen_events:
  "Exists f b \<in> set (gen_events E pp od pf fs) \<Longrightarrow> f \<in> set (gen_files E pp pf fs)"
  by (cases "fst (makedirs (cwd E) fs od)"; cases pf)
     (auto simp: gen_events_def gen_prefix_def dest: Exists_loop_events)

subsection \<open>What a call depends on\<close>




subsection \<open>Directory entries exist, and stay when entries are added\<close>















lemma start_dir_append: "d \<noteq> [] \<Longrightarrow> start_dir wd (d @ x) = start_dir wd d"
  by (cases d) (simp_all add: start_dir_def)




lemma rstrip_slash_snoc: "rstrip_slash (s @ ''/'') = rstrip_slash s"
  by (simp add: rstrip_slash_def)

lemma dropWhile_star_proto:
  "dropWhile (\<lambda>c. c \<noteq> CHR ''/'') (rev (s @ ''*.proto'')) = dropWhile (\<lambda>c. c \<noteq> CHR ''/'') (rev s)"
  by simp

lemma path_split_head_raw:
  "fst (path_split p) =
     (if rev (dropWhile (\<lambda>c. c \<noteq> CHR ''/'') (rev p)) \<noteq> []
         \<and> \<not> list_all (\<lambda>c. c = CHR ''/'') (rev (dropWhile (\<lambda>c. c \<noteq> CHR ''/'') (rev p)))
      then rstrip_slash (rev (dropWhile (\<lambda>c. c \<noteq> CHR ''/'') (rev p)))
      else rev (dropWhile (\<lambda>c. c \<noteq> CHR ''/'') (rev p)))"
  by (simp only: path_split_def Let_def fst_conv)

lemma dropWhile_rev_slash:
  "s \<noteq> [] \<Longrightarrow> last s = CHR ''/'' \<Longrightarrow> dropWhile (\<lambda>c. c \<noteq> CHR ''/'') (rev s) = rev s"
  by (cases s rule: rev_cases) simp_all

lemma join_star_slash:
  "pp \<noteq> [] \<Longrightarrow> last pp = CHR ''/'' \<Longrightarrow> path_join pp ''*.proto'' = pp @ ''*.proto''"
  by (simp add: path_join_def)

lemma join_star_noslash:
  "pp \<noteq> [] \<Longrightarrow> last pp \<noteq> CHR ''/'' \<Longrightarrow> path_join pp ''*.proto'' = (pp @ ''/'') @ ''*.proto''"
  by (simp add: path_join_def)

lemma join_star_Nil: "path_join [] ''*.proto'' = [] @ ''*.proto''"
  by (simp add: path_join_def)

lemma head_star_slash:
  assumes "s \<noteq> []" and "last s = CHR ''/''"
  shows "fst (path_split (s @ ''*.proto''))
         = (if \<not> list_all (\<lambda>c. c = CHR ''/'') s then rstrip_slash s else s)"
proof -
  have "dropWhile (\<lambda>c. c \<noteq> CHR ''/'') (rev (s @ ''*.proto''))
        = dropWhile (\<lambda>c. c \<noteq> CHR ''/'') (rev s)"
    by (rule dropWhile_star_proto)
  also have "\<dots> = rev s"
    using assms by (rule dropWhile_rev_slash)
  finally have d: "dropWhile (\<lambda>c. c \<noteq> CHR ''/'') (rev (s @ ''*.proto'')) = rev s" .
  show ?thesis
    using assms(1) by (simp only: path_split_head_raw d rev_rev_ident) simp
qed

lemma head_star_Nil: "fst (path_split ([] @ ''*.proto'')) = []"
  by (simp add: path_split_def)

lemma glob_dirname: "fst (path_split (path_join pp ''*.proto'')) = proto_dir pp"
proof (cases "pp = []")
  case True
  then show ?thesis
    by (simp only: join_star_Nil head_star_Nil) (simp add: proto_dir_def)
next
  case False
  show ?thesis
  proof (cases "last pp = CHR ''/''")
    case True
    have "fst (path_split (pp @ ''*.proto''))
         = (if \<not> list_all (\<lambda>c. c = CHR ''/'') pp then rstrip_slash pp else pp)"
      using False True by (rule head_star_slash)
    then show ?thesis
      using False True by (simp add: join_star_slash proto_dir_def)
  next
    case nslash: False
    have nall: "\<not> list_all (\<lambda>c. c = CHR ''/'') (pp @ ''/'')"
      using nslash False by (cases pp rule: rev_cases) (auto simp: list_all_iff)
    have nall': "\<not> list_all (\<lambda>c. c = CHR ''/'') pp"
      using nslash False by (cases pp rule: rev_cases) (auto simp: list_all_iff)
    have "fst (path_split ((pp @ ''/'') @ ''*.proto''))
          = (if \<not> list_all (\<lambda>c. c = CHR ''/'') (pp @ ''/'') then rstrip_slash (pp @ ''/'') else pp @ ''/'')"
      by (rule head_star_slash) simp_all
    then have "fst (path_split ((pp @ ''/'') @ ''*.proto'')) = rstrip_slash pp"
      using nall by (simp add: rstrip_slash_snoc)
    moreover have "path_join pp ''*.proto'' = (pp @ ''/'') @ ''*.proto''"
      using False nslash by (rule join_star_noslash)
    moreover have "proto_dir pp = rstrip_slash pp"
      using nall' by (simp add: proto_dir_def)
    ultimately show ?thesis
      by (simp only:)
  qed
qed

lemma set_rstrip_slash: "set (rstrip_slash s) \<subseteq> set s"
proof -
  have "set (dropWhile (\<lambda>c. c = CHR ''/'') (rev s)) \<subseteq> set (rev s)"
    by (rule set_dropWhileD [THEN subsetI])
  then show ?thesis
    by (simp add: rstrip_slash_def)
qed

lemma has_magic_proto_dir:
  assumes "has_magic (proto_dir pp)"
  shows "has_magic pp"
proof -
  from assms obtain c where c: "c \<in> set (proto_dir pp)" "c = CHR ''*'' \<or> c = CHR ''?'' \<or> c = CHR ''[''"
    unfolding has_magic_def list_ex_iff by blast
  have "set (proto_dir pp) \<subseteq> set pp"
    using set_rstrip_slash [of pp] by (simp add: proto_dir_def)
  with c show ?thesis
    unfolding has_magic_def list_ex_iff by blast
qed

lemma matches_star_proto_fun:
  "matches_star_proto = (\<lambda>n. \<not> ishidden n \<and> fnmatch_star_proto n)"
  by (rule ext) (simp add: matches_star_proto_def)

lemma map_path_join_Nil: "map (path_join []) xs = xs"
  by (induction xs) (simp_all add: path_join_def)

lemma glob_star_proto_plain:
  assumes "\<not> has_magic pp"
  shows "glob_star_proto E fs (path_join pp ''*.proto'')
         = map (path_join (proto_dir pp))
             (filter matches_star_proto
                (listdir (cwd E) fs (if proto_dir pp = [] then ''.'' else proto_dir pp)))"
proof -
  have nm: "\<not> has_magic (proto_dir pp)"
    using assms has_magic_proto_dir by blast
  show ?thesis
  proof (cases "proto_dir pp = []")
    case True
    then show ?thesis
      by (simp add: glob_star_proto_def glob_dirname glob1_star_proto_def matches_star_proto_fun
            map_path_join_Nil)
  next
    case False
    with nm show ?thesis
      by (simp add: glob_star_proto_def glob_dirname glob1_star_proto_def matches_star_proto_fun Let_def)
  qed
qed

lemma rstrip_slash_decomp: "\<exists>k. s = rstrip_slash s @ replicate k CHR ''/''"
proof -
  let ?t = "takeWhile (\<lambda>c. c = CHR ''/'') (rev s)"
  have "list_all (\<lambda>c. c = CHR ''/'') ?t"
    by (auto simp: list_all_iff dest: set_takeWhileD)
  then have t: "?t = replicate (length ?t) CHR ''/''"
    by (rule slashes_replicate)
  have "rev s = ?t @ dropWhile (\<lambda>c. c = CHR ''/'') (rev s)"
    by simp
  then have "s = rev (dropWhile (\<lambda>c. c = CHR ''/'') (rev s)) @ rev ?t"
    by (metis rev_append rev_rev_ident)
  moreover have "rev ?t = replicate (length ?t) CHR ''/''"
    using t by (metis rev_replicate)
  ultimately have "s = rstrip_slash s @ replicate (length ?t) CHR ''/''"
    by (simp add: rstrip_slash_def)
  then show ?thesis ..
qed

lemma split_slash_trailing:
  "split_slash (d @ replicate k CHR ''/'') = split_slash d @ replicate k []"
proof (induction k arbitrary: d)
  case 0
  show ?case by simp
next
  case (Suc k)
  have "d @ replicate (Suc k) CHR ''/'' = (d @ ''/'') @ replicate k CHR ''/''"
    by (simp add: replicate_app_Cons_same)
  moreover have "split_slash (d @ ''/'') = split_slash d @ [[]]"
    using split_slash_append_slash [of d "[]"] by simp
  ultimately show ?case
    using Suc.IH [of "d @ ''/''"] by (simp add: replicate_app_Cons_same)
qed

lemma walk_trailing_empties:
  "walk fs q (replicate k []) =
     (if k = 0 \<or> node_at fs q = Some Directory then Inr q else Inl ENOTDIR)"
  by (induction k) (auto simp: walk_step_def)

lemma listdir_trailing_slashes:
  assumes "d \<noteq> []"
  shows "listdir wd fs (d @ replicate k CHR ''/'') = listdir wd fs d"
proof -
  have "resolve wd fs (d @ replicate k CHR ''/'')
        = (case resolve wd fs d of
             Inl e \<Rightarrow> Inl e
           | Inr q \<Rightarrow> if k = 0 \<or> node_at fs q = Some Directory then Inr q else Inl ENOTDIR)"
    using assms
    by (simp add: resolve_def start_dir_append split_slash_trailing walk_append walk_trailing_empties
          split: sum.splits)
  then show ?thesis
    by (auto simp: listdir_def split: sum.splits)
qed

lemma rstrip_slash_Nil_iff: "rstrip_slash s = [] \<longleftrightarrow> list_all (\<lambda>c. c = CHR ''/'') s"
  by (simp add: rstrip_slash_def list_all_iff)

lemma listdir_proto_dir:
  "listdir wd fs (if proto_dir pp = [] then ''.'' else proto_dir pp)
   = listdir wd fs (if pp = [] then ''.'' else pp)"
proof (cases "list_all (\<lambda>c. c = CHR ''/'') pp")
  case True
  then show ?thesis
    by (simp add: proto_dir_def)
next
  case False
  then have d: "rstrip_slash pp \<noteq> []"
    by (simp add: rstrip_slash_Nil_iff)
  obtain k where k: "pp = rstrip_slash pp @ replicate k CHR ''/''"
    using rstrip_slash_decomp by blast
  have "listdir wd fs pp = listdir wd fs (rstrip_slash pp)"
    using listdir_trailing_slashes [OF d, of wd fs k] k by simp
  moreover have "pp \<noteq> []"
    using False by auto
  ultimately show ?thesis
    using False d by (simp add: proto_dir_def)
qed




lemma run_command_count:
  "length (commands (new_events w (snd (run E w))))
     \<le> length (glob_star_proto E (fsys w) (path_join ir_proto_path ''*.proto'')) + 1
   \<and> (fst (run E w) = Inr () \<longrightarrow>
        length (commands (new_events w (snd (run E w))))
          = length (glob_star_proto E (fsys w) (path_join ir_proto_path ''*.proto'')) + 1)"
proof (cases "fst (generate_proto E ir_proto_path generated_dir None w)")
  case (Inl e)
  have "length (commands (gen_events E ir_proto_path generated_dir None (fsys w)))
          \<le> length (gen_files E ir_proto_path None (fsys w))"
    by (rule gen_events_count_le)
  moreover have "fst (run E w) \<noteq> Inr ()"
    using Inl by (simp add: run_eq)
  ultimately show ?thesis
    using Inl by (simp add: run_new_events gen_files_def)
next
  case (Inr u)
  let ?w1 = "snd (generate_proto E ir_proto_path generated_dir None w)"
  have first: "length (commands (gen_events E ir_proto_path generated_dir None (fsys w)))
          = length (gen_files E ir_proto_path None (fsys w))"
    using Inr by (intro generate_proto_ok_count) simp
  have le: "length (commands (gen_events E error_proto_path generated_dir
                     (Some [''interactive.proto'']) (fsys ?w1))) \<le> 1"
    using gen_events_count_le [of E error_proto_path generated_dir "Some [''interactive.proto'']" "fsys ?w1"]
    by (simp add: gen_files_def)
  have eq: "length (commands (gen_events E error_proto_path generated_dir
                     (Some [''interactive.proto'']) (fsys ?w1))) = 1"
    if "fst (run E w) = Inr ()"
  proof -
    from that Inr have "fst (generate_proto E error_proto_path generated_dir
                          (Some [''interactive.proto'']) ?w1) = Inr ()"
      by (simp add: run_eq)
    from generate_proto_ok_count [OF this] show ?thesis
      by (simp add: gen_files_def)
  qed
  from Inr first le eq show ?thesis
    by (auto simp add: run_new_events commands_append gen_files_def)
qed

lemma ir_glob_count:
  "length (glob_star_proto E fs (path_join ir_proto_path ''*.proto''))
   = length (filter matches_star_proto (listdir (cwd E) fs ir_proto_path))"
proof -
  have nm: "\<not> has_magic ir_proto_path"
    by code_simp
  have ne: "ir_proto_path \<noteq> []"
    by (simp add: ir_proto_path_def)
  have "listdir (cwd E) fs (if proto_dir ir_proto_path = [] then ''.'' else proto_dir ir_proto_path)
        = listdir (cwd E) fs ir_proto_path"
    using listdir_proto_dir [of "cwd E" fs ir_proto_path] ne by simp
  then show ?thesis
    by (simp add: glob_star_proto_plain [OF nm])
qed

subsection \<open>The retry loop of the dispatcher\<close>

lemma send_with_retries_bound:
  "snd (send_with_retries left idem tr k) \<le> k + left + 1"
proof (induction left arbitrary: k)
  case 0
  show ?case by (simp split: attempt.splits)
next
  case (Suc left)
  show ?case
    using Suc.IH [of "Suc k"] by (auto split: attempt.splits)
qed

lemma send_with_retries_sends: "k < snd (send_with_retries left idem tr k)"
proof (induction left arbitrary: k)
  case 0
  show ?case by (simp split: attempt.splits)
next
  case (Suc left)
  show ?case
    using Suc.IH [of "Suc k"] by (auto split: attempt.splits)
qed

lemma send_with_retries_exhausted:
  "idem \<Longrightarrow> \<forall>j. k \<le> j \<and> j \<le> k + left \<longrightarrow> tr j = TransientFailure \<Longrightarrow>
   send_with_retries left idem tr k = (Inl TransportError, k + left + 1)"
proof (induction left arbitrary: k)
  case 0
  then show ?case by simp
next
  case (Suc left)
  have "tr k = TransientFailure"
    using Suc.prems(2) by simp
  moreover have "\<forall>j. Suc k \<le> j \<and> j \<le> Suc k + left \<longrightarrow> tr j = TransientFailure"
    using Suc.prems(2) by simp
  ultimately show ?case
    using Suc.IH [of "Suc k"] Suc.prems(1) by simp
qed

lemma send_with_retries_not_idempotent:
  "\<not> idem \<Longrightarrow> tr k = TransientFailure \<Longrightarrow>
   send_with_retries left idem tr k = (Inl TransportError, Suc k)"
  by (cases left) simp_all

subsection \<open>The concrete environments, evaluated\<close>

lemma small_env_fields:
  "executable small_env = ''python3''" "cwd small_env = [''w'']"
  "protoc small_env = compiler_ok" "glob_dirs small_env = no_glob_dirs"
  by (simp_all add: small_env_def)

lemma small_glob: "glob_star_proto small_env small_fs (path_join ''p'' ''*.proto'') = [''p/a.proto'', ''p/b.proto'']"
  by code_simp

lemma small_makedirs: "makedirs [''w''] small_fs ''out'' = (Inr (), small_fs_out)"
  by code_simp

lemma small_exists:
  "path_exists [''w''] small_fs_out ''p/a.proto''"
  "path_exists [''w''] small_fs_out ''p/b.proto''"
  by code_simp+

lemma small_generate:
  "generate_proto small_env ''p'' ''out'' None small_world =
     (Inr (),
      \<lparr>fsys = small_fs_out,
       trace = [Glob ''p/*.proto'', Makedirs ''out'',
                Exists ''p/a.proto'' True,
                CheckCall [''python3'', ''-m'', ''grpc_tools.protoc'', ''-I'', ''p'',
                           ''--python_out=out'', ''--mypy_out=out'', ''p/a.proto''] 0,
                Exists ''p/b.proto'' True,
                CheckCall [''python3'', ''-m'', ''grpc_tools.protoc'', ''-I'', ''p'',
                           ''--python_out=out'', ''--mypy_out=out'', ''p/b.proto''] 0]\<rparr>)"
proof -
  have j: "path_join ''p'' ''*.proto'' = ''p/*.proto''"
    by code_simp
  show ?thesis
    by (simp add: generate_proto_eq small_env_fields small_world_def small_makedirs gen_files_def
          small_glob [unfolded j] j gen_prefix_def compile_loop_Cons loop_cmd_def chosen_file_def
          small_exists compiler_ok_def protoc_cmd_def)
qed

lemma repo_env_fields:
  "executable repo_env = ''python3''" "cwd repo_env = repo_cwd"
  "protoc repo_env = compiler_ok" "glob_dirs repo_env = no_glob_dirs"
  by (simp_all add: repo_env_def)

lemma repo_glob:
  "glob_star_proto repo_env repo_fs (path_join ir_proto_path ''*.proto'')
     = [''../../../../interactive_engine/executor/ir/proto/common.proto'',
        ''../../../../interactive_engine/executor/ir/proto/results.proto'']"
  by code_simp

lemma repo_makedirs: "makedirs repo_cwd repo_fs generated_dir = (Inr (), repo_fs_out)"
  by code_simp

lemma repo_makedirs_again: "makedirs repo_cwd repo_fs_out generated_dir = (Inr (), repo_fs_out)"
  by code_simp

lemma repo_exists:
  "path_exists repo_cwd repo_fs_out ''../../../../interactive_engine/executor/ir/proto/common.proto''"
  "path_exists repo_cwd repo_fs_out ''../../../../interactive_engine/executor/ir/proto/results.proto''"
  "\<not> path_exists repo_cwd repo_fs_out ''interactive.proto''"
  by code_simp+

lemma repo_protoc_cmd: "protoc_cmd repo_env pp generated_dir f = repo_cmd pp f"
  by (simp add: protoc_cmd_def repo_cmd_def repo_env_fields generated_dir_def)

lemma repo_first_call:
  "generate_proto repo_env ir_proto_path generated_dir None repo_world =
     (Inr (),
      \<lparr>fsys = repo_fs_out,
       trace = [Glob (path_join ir_proto_path ''*.proto''), Makedirs generated_dir,
                Exists ''../../../../interactive_engine/executor/ir/proto/common.proto'' True,
                CheckCall (repo_cmd ir_proto_path
                   ''../../../../interactive_engine/executor/ir/proto/common.proto'') 0,
                Exists ''../../../../interactive_engine/executor/ir/proto/results.proto'' True,
                CheckCall (repo_cmd ir_proto_path
                   ''../../../../interactive_engine/executor/ir/proto/results.proto'') 0]\<rparr>)"
  by (simp add: generate_proto_eq repo_env_fields repo_world_def repo_makedirs gen_files_def
        repo_glob gen_prefix_def compile_loop_Cons loop_cmd_def chosen_file_def
        repo_exists compiler_ok_def repo_protoc_cmd)

lemma repo_run:
  "run repo_env repo_world =
     (Inr (),
      \<lparr>fsys = repo_fs_out,
       trace = [Glob (path_join ir_proto_path ''*.proto''), Makedirs generated_dir,
                Exists ''../../../../interactive_engine/executor/ir/proto/common.proto'' True,
                CheckCall (repo_cmd ir_proto_path
                   ''../../../../interactive_engine/executor/ir/proto/common.proto'') 0,
                Exists ''../../../../interactive_engine/executor/ir/proto/results.proto'' True,
                CheckCall (repo_cmd ir_proto_path
                   ''../../../../interactive_engine/executor/ir/proto/results.proto'') 0,
                Makedirs generated_dir,
                Exists ''interactive.proto'' False,
                CheckCall (repo_cmd error_proto_path
                   ''../../../../proto/error/interactive.proto'') 0]\<rparr>)"
  by (simp add: run_eq repo_first_call)
     (simp add: generate_proto_eq repo_env_fields repo_makedirs_again gen_files_def
        gen_prefix_def compile_loop_Cons loop_cmd_def chosen_file_def
        repo_exists compiler_ok_def repo_protoc_cmd error_join)

lemma small_fail_env_fields:
  "executable small_fail_env = ''python3''" "cwd small_fail_env = [''w'']"
  "protoc small_fail_env = compiler_fails" "glob_dirs small_fail_env = no_glob_dirs"
  by (simp_all add: small_fail_env_def)

lemma repo_fail_env_fields:
  "executable repo_fail_env = ''python3''" "cwd repo_fail_env = repo_cwd"
  "protoc repo_fail_env = compiler_fails" "glob_dirs repo_fail_env = no_glob_dirs"
  by (simp_all add: repo_fail_env_def)

lemma small_protoc_cmd:
  "protoc_cmd small_env ''p'' ''out'' f = small_cmd f"
  "protoc_cmd small_fail_env ''p'' ''out'' f = small_cmd f"
  by (simp_all add: protoc_cmd_def small_cmd_def small_env_fields small_fail_env_fields)

lemma repo_fail_protoc_cmd: "protoc_cmd repo_fail_env pp generated_dir f = repo_cmd pp f"
  by (simp add: protoc_cmd_def repo_cmd_def repo_fail_env_fields generated_dir_def)

lemma small_join: "path_join ''p'' ''*.proto'' = ''p/*.proto''" "path_join ''p'' ''b.proto'' = ''p/b.proto''"
  by code_simp+

lemma small_fail_glob:
  "glob_star_proto small_fail_env small_fs ''p/*.proto'' = [''p/a.proto'', ''p/b.proto'']"
  by code_simp

lemma small_not_exists: "\<not> path_exists [''w''] small_fs_out ''b.proto''"
  by code_simp

lemma small_fail_generate:
  "generate_proto small_fail_env ''p'' ''out'' None small_world =
     (Inl (CalledProcessError 1 (small_cmd ''p/a.proto'')),
      \<lparr>fsys = small_fs_out,
       trace = [Glob ''p/*.proto'', Makedirs ''out'', Exists ''p/a.proto'' True,
                CheckCall (small_cmd ''p/a.proto'') 1]\<rparr>)"
  by (simp add: generate_proto_eq small_fail_env_fields small_world_def small_makedirs gen_files_def
        small_join small_fail_glob gen_prefix_def compile_loop_Cons loop_cmd_def chosen_file_def
        small_exists compiler_fails_def small_protoc_cmd)

lemma small_generate_a:
  "generate_proto small_env ''p'' ''out'' (Some [''p/a.proto'']) small_world = (Inr (), small_world_a)"
  by (simp add: generate_proto_eq small_env_fields small_world_def small_makedirs gen_files_def
        gen_prefix_def compile_loop_Cons loop_cmd_def chosen_file_def
        small_exists compiler_ok_def small_protoc_cmd small_world_a_def)

lemma repo_fail_glob:
  "glob_star_proto repo_fail_env repo_fs (path_join ir_proto_path ''*.proto'')
     = [''../../../../interactive_engine/executor/ir/proto/common.proto'',
        ''../../../../interactive_engine/executor/ir/proto/results.proto'']"
  by code_simp

lemma repo_fail_first_call:
  "generate_proto repo_fail_env ir_proto_path generated_dir None repo_world =
     (Inl (CalledProcessError 1 (repo_cmd ir_proto_path
                   ''../../../../interactive_engine/executor/ir/proto/common.proto'')),
      \<lparr>fsys = repo_fs_out,
       trace = [Glob (path_join ir_proto_path ''*.proto''), Makedirs generated_dir,
                Exists ''../../../../interactive_engine/executor/ir/proto/common.proto'' True,
                CheckCall (repo_cmd ir_proto_path
                   ''../../../../interactive_engine/executor/ir/proto/common.proto'') 1]\<rparr>)"
  by (simp add: generate_proto_eq repo_fail_env_fields repo_world_def repo_makedirs gen_files_def
        repo_fail_glob gen_prefix_def compile_loop_Cons loop_cmd_def chosen_file_def
        repo_exists compiler_fails_def repo_fail_protoc_cmd)

lemma repo_fail_run:
  "run repo_fail_env repo_world = generate_proto repo_fail_env ir_proto_path generated_dir None repo_world"
  by (simp add: run_eq repo_fail_first_call)





















section \<open>The claims\<close>

subsection \<open>C1: the options of a command line\<close>

text \<open>
  Claim C1 says that every command line built by \<^verbatim>\<open>generate_proto\<close> carries a gRPC
  stub output option next to the Python output option. It does not: for the small
  directory of two proto files, no command line of the call has an argument that starts
  with \<^verbatim>\<open>--grpc_python_out\<close>.
\<close>

theorem generate_proto_no_grpc_option_counterexample:
  "\<not> list_all requests_grpc_stubs
       (commands (new_events small_world
          (snd (generate_proto small_env ''p'' ''out'' None small_world))))"
  by (simp add: small_generate new_events_def)
     (simp add: small_world_def requests_grpc_stubs_def is_grpc_out_option_def)

text \<open>
  Claim C1 as amended: every command line built by \<^verbatim>\<open>generate_proto\<close> is the
  interpreter, \<^verbatim>\<open>-m grpc_tools.protoc\<close>, \<^verbatim>\<open>-I proto_path\<close>, the Python output option
  \<^verbatim>\<open>--python_out=output_dir\<close>, the mypy stub output option \<^verbatim>\<open>--mypy_out=output_dir\<close>
  and one proto file, and nothing else.
\<close>

theorem generate_proto_requests_python_and_mypy_stubs:
  "\<forall>cmd \<in> set (commands (new_events w (snd (generate_proto E proto_path output_dir proto_files w)))).
     \<exists>proto_file.
       cmd = [executable E, ''-m'', ''grpc_tools.protoc'', ''-I'', proto_path,
              ''--python_out='' @ output_dir, ''--mypy_out='' @ output_dir, proto_file]"
proof
  fix cmd
  assume "cmd \<in> set (commands (new_events w (snd (generate_proto E proto_path output_dir proto_files w))))"
  then have "cmd \<in> set (commands (gen_events E proto_path output_dir proto_files (fsys w)))"
    by (simp only: generate_proto_new_events)
  then obtain f where "cmd = protoc_cmd E proto_path output_dir f"
    using gen_events_commands_shape by blast
  then show "\<exists>proto_file.
       cmd = [executable E, ''-m'', ''grpc_tools.protoc'', ''-I'', proto_path,
              ''--python_out='' @ output_dir, ''--mypy_out='' @ output_dir, proto_file]"
    by (simp only: protoc_cmd_def) blast
qed

theorem generate_proto_requests_python_and_mypy_stubs_witness:
  "[''python3'', ''-m'', ''grpc_tools.protoc'', ''-I'', ''p'',
    ''--python_out=out'', ''--mypy_out=out'', ''p/a.proto'']
     \<in> set (commands (new_events small_world
               (snd (generate_proto small_env ''p'' ''out'' None small_world))))
   \<and> (\<exists>proto_file.
         [''python3'', ''-m'', ''grpc_tools.protoc'', ''-I'', ''p'',
          ''--python_out=out'', ''--mypy_out=out'', ''p/a.proto'']
         = [executable small_env, ''-m'', ''grpc_tools.protoc'', ''-I'', ''p'',
            ''--python_out='' @ ''out'', ''--mypy_out='' @ ''out'', proto_file])"
proof -
  have mem: "[''python3'', ''-m'', ''grpc_tools.protoc'', ''-I'', ''p'',
    ''--python_out=out'', ''--mypy_out=out'', ''p/a.proto'']
     \<in> set (commands (new_events small_world
               (snd (generate_proto small_env ''p'' ''out'' None small_world))))"
    by (simp add: small_generate new_events_def) (simp add: small_world_def)
  have "\<exists>proto_file.
         [''python3'', ''-m'', ''grpc_tools.protoc'', ''-I'', ''p'',
          ''--python_out=out'', ''--mypy_out=out'', ''p/a.proto'']
         = [executable small_env, ''-m'', ''grpc_tools.protoc'', ''-I'', ''p'',
            ''--python_out='' @ ''out'', ''--mypy_out='' @ ''out'', proto_file]"
    using generate_proto_requests_python_and_mypy_stubs
            [of small_world small_env "''p''" "''out''" None] mem
    by (rule bspec)
  with mem show ?thesis
    by (rule conjI)
qed

subsection \<open>C2: the number of compiler subprocesses of run\<close>

text \<open>
  Claim C2 says that \<^verbatim>\<open>run\<close> spawns exactly two compiler subprocesses however many proto
  files the first directory holds. With two proto files there it spawns three.
\<close>

theorem run_three_invocations_counterexample:
  "length (commands (new_events repo_world (snd (run repo_env repo_world)))) = 3
   \<and> length (commands (new_events repo_world (snd (run repo_env repo_world)))) \<noteq> 2"
  by (simp add: repo_run new_events_def) (simp add: repo_world_def)

text \<open>
  Claim C2 as amended: \<^verbatim>\<open>run\<close> spawns at most one compiler subprocess for each entry
  that \<^verbatim>\<open>*.proto\<close> matches in the first proto directory, and one more for
  \<^verbatim>\<open>interactive.proto\<close>; when \<^verbatim>\<open>run\<close> returns without an exception it has spawned
  exactly that many.
\<close>

theorem run_spawns_one_compiler_per_matching_file_plus_one:
  "length (commands (new_events w (snd (run E w))))
     \<le> length (filter matches_star_proto (listdir (cwd E) (fsys w) ir_proto_path)) + 1
   \<and> (fst (run E w) = Inr () \<longrightarrow>
        length (commands (new_events w (snd (run E w))))
          = length (filter matches_star_proto (listdir (cwd E) (fsys w) ir_proto_path)) + 1)"
  by (rule run_command_count [of w E, unfolded ir_glob_count])

theorem run_spawns_one_compiler_per_matching_file_plus_one_witness:
  "fst (run repo_env repo_world) = Inr ()
   \<and> length (commands (new_events repo_world (snd (run repo_env repo_world))))
       = length (filter matches_star_proto
                   (listdir (cwd repo_env) (fsys repo_world) ir_proto_path)) + 1
   \<and> length (filter matches_star_proto
                 (listdir (cwd repo_env) (fsys repo_world) ir_proto_path)) = 2"
proof -
  have ok: "fst (run repo_env repo_world) = Inr ()"
    by (simp add: repo_run)
  from run_spawns_one_compiler_per_matching_file_plus_one [of repo_world repo_env, THEN conjunct2]
  have "fst (run repo_env repo_world) = Inr () \<longrightarrow>
        length (commands (new_events repo_world (snd (run repo_env repo_world))))
          = length (filter matches_star_proto
                      (listdir (cwd repo_env) (fsys repo_world) ir_proto_path)) + 1" .
  then have "length (commands (new_events repo_world (snd (run repo_env repo_world))))
          = length (filter matches_star_proto
                      (listdir (cwd repo_env) (fsys repo_world) ir_proto_path)) + 1"
    using ok by (rule mp)
  moreover have "length (filter matches_star_proto
                 (listdir (cwd repo_env) (fsys repo_world) ir_proto_path)) = 2"
    by code_simp
  ultimately show ?thesis
    using ok by blast
qed

subsection \<open>C3: the output directory of run\<close>

text \<open>
  Claim C3: every command line built during \<^verbatim>\<open>run\<close> has the two output options
  \<^verbatim>\<open>--python_out\<close> and \<^verbatim>\<open>--mypy_out\<close>, both pointing at
  \<^verbatim>\<open>./gs_interactive/client/generated/\<close>; its only other free arguments are the
  include path of the call and the proto file, which never starts with a dash; and the
  only directory \<^verbatim>\<open>run\<close> creates is that output directory, which both calls of
  \<^verbatim>\<open>generate_proto\<close> receive as \<open>output_dir\<close>.
\<close>

theorem run_outputs_to_generated_dir:
  "(\<forall>cmd \<in> set (commands (new_events w (snd (run E w)))).
      \<exists>pp f. cmd = [executable E, ''-m'', ''grpc_tools.protoc'', ''-I'', pp,
                     ''--python_out=./gs_interactive/client/generated/'',
                     ''--mypy_out=./gs_interactive/client/generated/'', f]
             \<and> (pp = ir_proto_path \<or> pp = error_proto_path)
             \<and> f \<noteq> [] \<and> hd f \<noteq> CHR ''-'')
   \<and> (\<forall>name. Makedirs name \<in> set (new_events w (snd (run E w)))
         \<longrightarrow> name = ''./gs_interactive/client/generated/'')"
proof (intro conjI ballI allI impI)
  fix cmd
  assume "cmd \<in> set (commands (new_events w (snd (run E w))))"
  then consider
      (first) "cmd \<in> set (commands (gen_events E ir_proto_path generated_dir None (fsys w)))"
    | (second) fs1 where
        "cmd \<in> set (commands (gen_events E error_proto_path generated_dir (Some [''interactive.proto'']) fs1))"
    by (cases "fst (generate_proto E ir_proto_path generated_dir None w)")
       (auto simp: run_new_events commands_append)
  then show "\<exists>pp f. cmd = [executable E, ''-m'', ''grpc_tools.protoc'', ''-I'', pp,
                     ''--python_out=./gs_interactive/client/generated/'',
                     ''--mypy_out=./gs_interactive/client/generated/'', f]
             \<and> (pp = ir_proto_path \<or> pp = error_proto_path)
             \<and> f \<noteq> [] \<and> hd f \<noteq> CHR ''-''"
  proof cases
    case first
    then obtain g where g: "g \<in> set (glob_star_proto E (fsys w) (path_join ir_proto_path ''*.proto''))"
      and c: "cmd = protoc_cmd E ir_proto_path generated_dir g
              \<or> cmd = protoc_cmd E ir_proto_path generated_dir (path_join ir_proto_path g)"
      using gen_events_commands_files [of cmd E ir_proto_path generated_dir None "fsys w"]
      by (auto simp: gen_files_def)
    have hg: "g \<noteq> [] \<and> (hd g = CHR ''.'' \<or> hd g = CHR ''/'')"
      using g by (rule ir_glob_hd)
    have "ir_proto_path \<noteq> [] \<and> hd ir_proto_path = CHR ''.''"
      by (simp add: ir_proto_path_def)
    then have hj: "path_join ir_proto_path g \<noteq> []
               \<and> (hd (path_join ir_proto_path g) = CHR ''.'' \<or> hd (path_join ir_proto_path g) = CHR ''/'')"
      using path_join_hd [of ir_proto_path g] by auto
    from c show ?thesis
    proof
      assume "cmd = protoc_cmd E ir_proto_path generated_dir g"
      with hg show ?thesis
        by (auto simp: protoc_cmd_def generated_dir_def)
    next
      assume "cmd = protoc_cmd E ir_proto_path generated_dir (path_join ir_proto_path g)"
      with hj show ?thesis
        by (auto simp: protoc_cmd_def generated_dir_def)
    qed
  next
    case second
    then have "cmd = protoc_cmd E error_proto_path generated_dir ''interactive.proto''
             \<or> cmd = protoc_cmd E error_proto_path generated_dir ''../../../../proto/error/interactive.proto''"
      using gen_events_commands_files [of cmd E error_proto_path generated_dir "Some [''interactive.proto'']" fs1]
      by (auto simp: gen_files_def error_join)
    then show ?thesis
      by (auto simp: protoc_cmd_def generated_dir_def)
  qed
next
  fix name
  assume "Makedirs name \<in> set (new_events w (snd (run E w)))"
  then have "name = generated_dir"
    by (cases "fst (generate_proto E ir_proto_path generated_dir None w)")
       (auto simp: run_new_events dest: Makedirs_gen_events)
  then show "name = ''./gs_interactive/client/generated/''"
    by (simp add: generated_dir_def)
qed

theorem run_outputs_to_generated_dir_witness:
  "repo_cmd error_proto_path ''../../../../proto/error/interactive.proto''
     \<in> set (commands (new_events repo_world (snd (run repo_env repo_world))))
   \<and> (\<exists>pp f. repo_cmd error_proto_path ''../../../../proto/error/interactive.proto''
               = [executable repo_env, ''-m'', ''grpc_tools.protoc'', ''-I'', pp,
                  ''--python_out=./gs_interactive/client/generated/'',
                  ''--mypy_out=./gs_interactive/client/generated/'', f]
             \<and> (pp = ir_proto_path \<or> pp = error_proto_path)
             \<and> f \<noteq> [] \<and> hd f \<noteq> CHR ''-'')
   \<and> Makedirs generated_dir \<in> set (new_events repo_world (snd (run repo_env repo_world)))
   \<and> generated_dir = ''./gs_interactive/client/generated/''"
proof -
  have mem: "repo_cmd error_proto_path ''../../../../proto/error/interactive.proto''
     \<in> set (commands (new_events repo_world (snd (run repo_env repo_world))))"
    by (simp add: repo_run new_events_def) (simp add: repo_world_def)
  have mk: "Makedirs generated_dir \<in> set (new_events repo_world (snd (run repo_env repo_world)))"
    by (simp add: repo_run new_events_def) (simp add: repo_world_def)
  note inst = run_outputs_to_generated_dir [of repo_world repo_env]
  have a: "\<exists>pp f. repo_cmd error_proto_path ''../../../../proto/error/interactive.proto''
               = [executable repo_env, ''-m'', ''grpc_tools.protoc'', ''-I'', pp,
                  ''--python_out=./gs_interactive/client/generated/'',
                  ''--mypy_out=./gs_interactive/client/generated/'', f]
             \<and> (pp = ir_proto_path \<or> pp = error_proto_path)
             \<and> f \<noteq> [] \<and> hd f \<noteq> CHR ''-''"
    using inst [THEN conjunct1] mem by (rule bspec)
  have b: "generated_dir = ''./gs_interactive/client/generated/''"
    using inst [THEN conjunct2, THEN spec, of generated_dir] mk by (rule mp)
  from mem a mk b show ?thesis
    by blast
qed

subsection \<open>C4: the files compiled when no list is given\<close>




subsection \<open>C5: determinism\<close>




subsection \<open>C6: the effects of generate_proto\<close>

text \<open>
  Claim C6 says that \<^verbatim>\<open>generate_proto\<close> itself reads nothing but \<open>proto_path\<close> and
  changes nothing. It does both: with a compiler that leaves the file system alone, the
  call on the small directory leaves a file system that differs from the one it started
  with (the output directory has been created), and for the explicit entry
  \<^verbatim>\<open>b.proto\<close> it tests a path of the working directory, outside \<open>proto_path\<close>.
\<close>

theorem generate_proto_changes_file_system_counterexample:
  "fsys (snd (generate_proto small_env ''p'' ''out'' None small_world)) \<noteq> fsys small_world
   \<and> Exists ''b.proto'' False
       \<in> set (trace (snd (generate_proto small_env ''p'' ''out'' (Some [''b.proto'']) small_world)))"
proof -
  have "generate_proto small_env ''p'' ''out'' (Some [''b.proto'']) small_world
        = (Inr (), \<lparr>fsys = small_fs_out,
                    trace = [Makedirs ''out'', Exists ''b.proto'' False,
                             CheckCall (small_cmd ''p/b.proto'') 0]\<rparr>)"
    by (simp add: generate_proto_eq small_env_fields small_world_def small_makedirs gen_files_def
          gen_prefix_def compile_loop_Cons loop_cmd_def chosen_file_def small_join
          small_not_exists compiler_ok_def small_protoc_cmd)
  then show ?thesis
    by (simp add: small_generate) (simp add: small_world_def small_fs_out_def)
qed

text \<open>
  Claim C6 as amended: the file system \<^verbatim>\<open>generate_proto\<close> leaves is the one
  \<^verbatim>\<open>os.makedirs(output_dir, exist_ok=True)\<close> leaves, changed further only by the compiler
  subprocesses, one after the other; \<^verbatim>\<open>os.makedirs\<close> keeps every entry and adds
  directories only. The call reads the file system only through the glob of
  \<^verbatim>\<open>*.proto\<close> in \<open>proto_path\<close> (when \<open>proto_files\<close> is \<^verbatim>\<open>None\<close>) and through one
  existence test for each proto file it reaches, and the only directory it creates is
  \<open>output_dir\<close>.
\<close>

theorem generate_proto_own_effects:
  "fsys (snd (generate_proto E proto_path output_dir proto_files w))
     = foldl (\<lambda>fs cmd. snd (protoc E cmd fs)) (snd (makedirs (cwd E) (fsys w) output_dir))
         (commands (new_events w (snd (generate_proto E proto_path output_dir proto_files w))))
   \<and> (\<exists>added. snd (makedirs (cwd E) (fsys w) output_dir) = fsys w @ added
         \<and> (\<forall>e \<in> set added. snd e = Directory))
   \<and> (\<forall>x. Glob x \<in> set (new_events w (snd (generate_proto E proto_path output_dir proto_files w)))
         \<longrightarrow> x = path_join proto_path ''*.proto'' \<and> proto_files = None)
   \<and> (\<forall>x. Makedirs x \<in> set (new_events w (snd (generate_proto E proto_path output_dir proto_files w)))
         \<longrightarrow> x = output_dir)
   \<and> (\<forall>f b. Exists f b \<in> set (new_events w (snd (generate_proto E proto_path output_dir proto_files w)))
         \<longrightarrow> f \<in> set (case proto_files of
                          None \<Rightarrow> glob_star_proto E (fsys w) (path_join proto_path ''*.proto'')
                        | Some fl \<Rightarrow> fl))"
proof (intro conjI allI impI)
  show "fsys (snd (generate_proto E proto_path output_dir proto_files w))
     = foldl (\<lambda>fs cmd. snd (protoc E cmd fs)) (snd (makedirs (cwd E) (fsys w) output_dir))
         (commands (new_events w (snd (generate_proto E proto_path output_dir proto_files w))))"
    by (simp only: generate_proto_new_events generate_proto_fsys)
  show "\<exists>added. snd (makedirs (cwd E) (fsys w) output_dir) = fsys w @ added
         \<and> (\<forall>e \<in> set added. snd e = Directory)"
    by (rule makedirs_adds_directories)
next
  fix x
  assume "Glob x \<in> set (new_events w (snd (generate_proto E proto_path output_dir proto_files w)))"
  then have g: "Glob x \<in> set (gen_events E proto_path output_dir proto_files (fsys w))"
    by (simp only: generate_proto_new_events)
  from Glob_gen_events [OF g] show "x = path_join proto_path ''*.proto''" "proto_files = None"
    by simp_all
next
  fix x
  assume "Makedirs x \<in> set (new_events w (snd (generate_proto E proto_path output_dir proto_files w)))"
  then have "Makedirs x \<in> set (gen_events E proto_path output_dir proto_files (fsys w))"
    by (simp only: generate_proto_new_events)
  then show "x = output_dir"
    by (rule Makedirs_gen_events)
next
  fix f b
  assume "Exists f b \<in> set (new_events w (snd (generate_proto E proto_path output_dir proto_files w)))"
  then have "Exists f b \<in> set (gen_events E proto_path output_dir proto_files (fsys w))"
    by (simp only: generate_proto_new_events)
  from Exists_gen_events [OF this]
  show "f \<in> set (case proto_files of
                          None \<Rightarrow> glob_star_proto E (fsys w) (path_join proto_path ''*.proto'')
                        | Some fl \<Rightarrow> fl)"
    by (simp add: gen_files_def)
qed

theorem generate_proto_own_effects_witness:
  "snd (makedirs (cwd small_env) (fsys small_world) ''out'')
     = fsys small_world @ [([''w'', ''out''], Directory)]
   \<and> fsys (snd (generate_proto small_env ''p'' ''out'' None small_world))
       = foldl (\<lambda>fs cmd. snd (protoc small_env cmd fs))
           (snd (makedirs (cwd small_env) (fsys small_world) ''out''))
           (commands (new_events small_world (snd (generate_proto small_env ''p'' ''out'' None small_world))))
   \<and> Glob ''p/*.proto''
       \<in> set (new_events small_world (snd (generate_proto small_env ''p'' ''out'' None small_world)))
   \<and> ''p/*.proto'' = path_join ''p'' ''*.proto''
   \<and> Makedirs ''out''
       \<in> set (new_events small_world (snd (generate_proto small_env ''p'' ''out'' None small_world)))
   \<and> Exists ''p/a.proto'' True
       \<in> set (new_events small_world (snd (generate_proto small_env ''p'' ''out'' None small_world)))
   \<and> ''p/a.proto'' \<in> set (glob_star_proto small_env (fsys small_world) (path_join ''p'' ''*.proto''))"
proof -
  note inst = generate_proto_own_effects [of small_env "''p''" "''out''" None small_world]
  have ev: "new_events small_world (snd (generate_proto small_env ''p'' ''out'' None small_world))
     = [Glob ''p/*.proto'', Makedirs ''out'', Exists ''p/a.proto'' True,
        CheckCall (small_cmd ''p/a.proto'') 0, Exists ''p/b.proto'' True,
        CheckCall (small_cmd ''p/b.proto'') 0]"
    by (simp add: small_generate new_events_def) (simp add: small_world_def small_cmd_def)
  have g: "Glob ''p/*.proto''
       \<in> set (new_events small_world (snd (generate_proto small_env ''p'' ''out'' None small_world)))"
    and m: "Makedirs ''out''
       \<in> set (new_events small_world (snd (generate_proto small_env ''p'' ''out'' None small_world)))"
    and x: "Exists ''p/a.proto'' True
       \<in> set (new_events small_world (snd (generate_proto small_env ''p'' ''out'' None small_world)))"
    by (simp_all add: ev)
  have a: "snd (makedirs (cwd small_env) (fsys small_world) ''out'')
     = fsys small_world @ [([''w'', ''out''], Directory)]"
    by (simp add: small_env_fields small_world_def small_makedirs small_fs_out_def)
  have c1: "''p/*.proto'' = path_join ''p'' ''*.proto''"
    using inst [THEN conjunct2, THEN conjunct2, THEN conjunct1, THEN spec, THEN mp, OF g]
    by (rule conjunct1)
  have c2: "''p/a.proto'' \<in> set (glob_star_proto small_env (fsys small_world) (path_join ''p'' ''*.proto''))"
    using inst [THEN conjunct2, THEN conjunct2, THEN conjunct2, THEN conjunct2,
                THEN spec, THEN spec, THEN mp, OF x]
    by simp
  from a inst [THEN conjunct1] g c1 m x c2 show ?thesis
    by blast
qed

subsection \<open>C7: a failing compiler stops the command\<close>

text \<open>
  Claim C7: when a compiler subprocess of \<^verbatim>\<open>generate_proto\<close> exits with a non-zero
  status, that subprocess is the last thing the call does and the call raises
  \<^verbatim>\<open>CalledProcessError\<close> with that status and command line: no later file is tested
  or compiled. The same holds for \<^verbatim>\<open>run\<close> as a whole, and when the first call of
  \<^verbatim>\<open>generate_proto\<close> in \<^verbatim>\<open>run\<close> raises, \<^verbatim>\<open>run\<close> ends as that call ended: the
  second call is not made.
\<close>

theorem failure_stops_compilation:
  "(new_events w (snd (generate_proto E proto_path output_dir proto_files w))
      = evs1 @ CheckCall cmd rc # evs2 \<and> rc \<noteq> 0
    \<longrightarrow> evs2 = []
        \<and> fst (generate_proto E proto_path output_dir proto_files w)
            = Inl (CalledProcessError rc cmd))
   \<and> (new_events w (snd (run E w)) = evs1' @ CheckCall cmd' rc' # evs2' \<and> rc' \<noteq> 0
    \<longrightarrow> evs2' = [] \<and> fst (run E w) = Inl (CalledProcessError rc' cmd'))
   \<and> (fst (generate_proto E ir_proto_path generated_dir None w) \<noteq> Inr ()
    \<longrightarrow> run E w = generate_proto E ir_proto_path generated_dir None w)"
proof (intro conjI impI)
  assume a: "new_events w (snd (generate_proto E proto_path output_dir proto_files w))
      = evs1 @ CheckCall cmd rc # evs2 \<and> rc \<noteq> 0"
  then have g: "gen_events E proto_path output_dir proto_files (fsys w) = evs1 @ CheckCall cmd rc # evs2"
    by (simp add: generate_proto_new_events)
  have f: "failed (CheckCall cmd rc)"
    using a by simp
  show e: "evs2 = []"
    using gen_events_failed_last g f by (rule failed_only_last)
  from g e have "last (gen_events E proto_path output_dir proto_files (fsys w)) = CheckCall cmd rc"
    by simp
  then show "fst (generate_proto E proto_path output_dir proto_files w) = Inl (CalledProcessError rc cmd)"
    using a by (intro generate_proto_failed_result) simp_all
next
  assume a: "new_events w (snd (run E w)) = evs1' @ CheckCall cmd' rc' # evs2' \<and> rc' \<noteq> 0"
  have f: "failed (CheckCall cmd' rc')"
    using a by simp
  show e: "evs2' = []"
    using run_events_failed_last a [THEN conjunct1] f by (rule failed_only_last)
  from a e have "last (new_events w (snd (run E w))) = CheckCall cmd' rc'"
    by simp
  then show "fst (run E w) = Inl (CalledProcessError rc' cmd')"
    using a by (intro run_failed_result) simp_all
next
  assume "fst (generate_proto E ir_proto_path generated_dir None w) \<noteq> Inr ()"
  then show "run E w = generate_proto E ir_proto_path generated_dir None w"
    by (cases "fst (generate_proto E ir_proto_path generated_dir None w)") (simp_all add: run_eq)
qed

theorem failure_stops_compilation_witness:
  "new_events small_world (snd (generate_proto small_fail_env ''p'' ''out'' None small_world))
     = [Glob ''p/*.proto'', Makedirs ''out'', Exists ''p/a.proto'' True]
       @ CheckCall (small_cmd ''p/a.proto'') 1 # []
   \<and> (1::int) \<noteq> 0
   \<and> fst (generate_proto small_fail_env ''p'' ''out'' None small_world)
       = Inl (CalledProcessError 1 (small_cmd ''p/a.proto''))
   \<and> new_events repo_world (snd (run repo_fail_env repo_world))
       = [Glob (path_join ir_proto_path ''*.proto''), Makedirs generated_dir,
          Exists ''../../../../interactive_engine/executor/ir/proto/common.proto'' True]
         @ CheckCall (repo_cmd ir_proto_path
              ''../../../../interactive_engine/executor/ir/proto/common.proto'') 1 # []
   \<and> fst (run repo_fail_env repo_world)
       = Inl (CalledProcessError 1 (repo_cmd ir_proto_path
                ''../../../../interactive_engine/executor/ir/proto/common.proto''))
   \<and> fst (generate_proto repo_fail_env ir_proto_path generated_dir None repo_world) \<noteq> Inr ()
   \<and> run repo_fail_env repo_world
       = generate_proto repo_fail_env ir_proto_path generated_dir None repo_world"
proof -
  have h1: "new_events small_world (snd (generate_proto small_fail_env ''p'' ''out'' None small_world))
     = [Glob ''p/*.proto'', Makedirs ''out'', Exists ''p/a.proto'' True]
       @ CheckCall (small_cmd ''p/a.proto'') 1 # [] \<and> (1::int) \<noteq> 0"
    by (simp add: small_fail_generate new_events_def) (simp add: small_world_def)
  have h2: "new_events repo_world (snd (run repo_fail_env repo_world))
       = [Glob (path_join ir_proto_path ''*.proto''), Makedirs generated_dir,
          Exists ''../../../../interactive_engine/executor/ir/proto/common.proto'' True]
         @ CheckCall (repo_cmd ir_proto_path
              ''../../../../interactive_engine/executor/ir/proto/common.proto'') 1 # []
       \<and> (1::int) \<noteq> 0"
    by (simp add: repo_fail_run repo_fail_first_call new_events_def) (simp add: repo_world_def)
  have h3: "fst (generate_proto repo_fail_env ir_proto_path generated_dir None repo_world) \<noteq> Inr ()"
    by (simp add: repo_fail_first_call)
  note inst = failure_stops_compilation
     [of small_world small_fail_env "''p''" "''out''" None
         "[Glob ''p/*.proto'', Makedirs ''out'', Exists ''p/a.proto'' True]"
         "small_cmd ''p/a.proto''" 1 "[]"]
  note inst' = failure_stops_compilation
     [where w = repo_world and E = repo_fail_env
        and ?evs1' = "[Glob (path_join ir_proto_path ''*.proto''), Makedirs generated_dir,
          Exists ''../../../../interactive_engine/executor/ir/proto/common.proto'' True]"
        and ?cmd' = "repo_cmd ir_proto_path
              ''../../../../interactive_engine/executor/ir/proto/common.proto''"
        and ?rc' = 1 and ?evs2' = "[]"]
  have c1: "fst (generate_proto small_fail_env ''p'' ''out'' None small_world)
       = Inl (CalledProcessError 1 (small_cmd ''p/a.proto''))"
    using inst [THEN conjunct1, THEN mp, OF h1] by (rule conjunct2)
  have c2: "fst (run repo_fail_env repo_world)
       = Inl (CalledProcessError 1 (repo_cmd ir_proto_path
                ''../../../../interactive_engine/executor/ir/proto/common.proto''))"
    using inst' [THEN conjunct2, THEN conjunct1, THEN mp, OF h2] by (rule conjunct2)
  have c3: "run repo_fail_env repo_world
       = generate_proto repo_fail_env ir_proto_path generated_dir None repo_world"
    using inst' [THEN conjunct2, THEN conjunct2] h3 by (rule mp)
  from h1 h2 h3 c1 c2 c3 show ?thesis
    by blast
qed

subsection \<open>C8: the entries of an explicit list\<close>

text \<open>
  Claim C8: take an explicit list of proto files and any entry of it, and let the entries
  before it have been compiled without an exception, leaving the world \<open>w1\<close>. Then the
  call tests the existence of the entry once, in \<open>w1\<close>, and the next thing it does is to
  run the compiler on the entry itself when it exists, and on \<open>proto_path\<close> joined with
  the entry when it does not; the joined path is not tested.
\<close>

theorem explicit_entry_passed_unchanged_or_joined:
  assumes "generate_proto E proto_path output_dir (Some pre) w = (Inr (), w1)"
  shows "take (length (trace w1) + 2)
           (trace (snd (generate_proto E proto_path output_dir (Some (pre @ entry # post)) w)))
         = trace w1 @
           [Exists entry (path_exists (cwd E) (fsys w1) entry),
            CheckCall
              (protoc_cmd E proto_path output_dir
                 (if path_exists (cwd E) (fsys w1) entry then entry
                  else path_join proto_path entry))
              (fst (protoc E
                 (protoc_cmd E proto_path output_dir
                    (if path_exists (cwd E) (fsys w1) entry then entry
                     else path_join proto_path entry))
                 (fsys w1)))]"
proof -
  let ?w0 = "\<lparr>fsys = snd (makedirs (cwd E) (fsys w) output_dir),
              trace = trace w @ gen_prefix proto_path output_dir (Some pre)\<rparr>"
  have p: "gen_prefix proto_path output_dir (Some (pre @ entry # post))
           = gen_prefix proto_path output_dir (Some pre)"
    by (simp add: gen_prefix_def)
  have m: "fst (makedirs (cwd E) (fsys w) output_dir) = Inr ()"
    using assms generate_proto_ok_makedirs [of E proto_path output_dir "Some pre" w] by simp
  with assms have loop: "compile_loop E proto_path output_dir pre ?w0 = (Inr (), w1)"
    by (simp add: generate_proto_eq gen_files_def)
  have "generate_proto E proto_path output_dir (Some (pre @ entry # post)) w
        = compile_loop E proto_path output_dir (entry # post) w1"
    using m loop by (simp add: generate_proto_eq gen_files_def p compile_loop_append)
  then have "trace (snd (generate_proto E proto_path output_dir (Some (pre @ entry # post)) w))
        = trace w1 @ loop_events E proto_path output_dir (entry # post) (fsys w1)"
    by (simp add: compile_loop_trace)
  then show ?thesis
    by (simp add: loop_cmd_def chosen_file_def)
qed

theorem explicit_entry_passed_unchanged_or_joined_witness:
  "generate_proto small_env ''p'' ''out'' (Some [''p/a.proto'']) small_world = (Inr (), small_world_a)
   \<and> take (length (trace small_world_a) + 2)
        (trace (snd (generate_proto small_env ''p'' ''out''
                       (Some ([''p/a.proto''] @ ''b.proto'' # [''p/b.proto''])) small_world)))
      = trace small_world_a @
        [Exists ''b.proto'' False, CheckCall (small_cmd ''p/b.proto'') 0]"
proof -
  have h: "generate_proto small_env ''p'' ''out'' (Some [''p/a.proto'']) small_world
           = (Inr (), small_world_a)"
    by (rule small_generate_a)
  have ne: "\<not> path_exists (cwd small_env) (fsys small_world_a) ''b.proto''"
    by (simp add: small_env_fields small_world_a_def small_not_exists)
  have rc: "fst (protoc small_env (small_cmd ''p/b.proto'') (fsys small_world_a)) = 0"
    by (simp add: small_env_fields compiler_ok_def)
  from explicit_entry_passed_unchanged_or_joined [OF h, of "''b.proto''" "[''p/b.proto'']"]
  have "take (length (trace small_world_a) + 2)
        (trace (snd (generate_proto small_env ''p'' ''out''
                       (Some ([''p/a.proto''] @ ''b.proto'' # [''p/b.proto''])) small_world)))
      = trace small_world_a @
        [Exists ''b.proto'' False, CheckCall (small_cmd ''p/b.proto'') 0]"
    by (simp only: ne if_False small_join small_protoc_cmd rc)
  with h show ?thesis
    by (rule conjI)
qed

subsection \<open>C9: the output directory is created first, and may exist already\<close>



subsection \<open>C10: retries of the Protocol Dispatcher\<close>

text \<open>
  Claim C10, on the dispatcher as the specification describes it, with a bound of at
  least one retry: an idempotent operation whose first send fails transiently and whose
  second send is answered returns that answer, after two sends; an idempotent operation
  all of whose sends fail returns \<^verbatim>\<open>TransportError\<close> once the bound is exhausted, after
  one send more than the bound; an operation that is not idempotent returns
  \<^verbatim>\<open>TransportError\<close> after the first failed send; and no invocation sends more often
  than the bound plus one.
\<close>

theorem dispatcher_retries_idempotent_only:
  "(idempotent \<and> 0 < max_retries \<and> transport 0 = TransientFailure \<and> transport 1 = Response r
      \<longrightarrow> invoke max_retries idempotent transport = (Inr r, 2))
   \<and> (idempotent \<and> (\<forall>k \<le> max_retries. transport k = TransientFailure)
      \<longrightarrow> invoke max_retries idempotent transport = (Inl TransportError, max_retries + 1))
   \<and> (\<not> idempotent \<and> transport 0 = TransientFailure
      \<longrightarrow> invoke max_retries idempotent transport = (Inl TransportError, 1))
   \<and> 0 < snd (invoke max_retries idempotent transport)
   \<and> snd (invoke max_retries idempotent transport) \<le> max_retries + 1"
proof (intro conjI impI)
  assume a: "idempotent \<and> 0 < max_retries \<and> transport 0 = TransientFailure \<and> transport 1 = Response r"
  then obtain n where n: "max_retries = Suc n"
    by (cases max_retries) auto
  from a show "invoke max_retries idempotent transport = (Inr r, 2)"
    by (cases n) (simp_all add: invoke_def n)
next
  assume a: "idempotent \<and> (\<forall>k \<le> max_retries. transport k = TransientFailure)"
  then have "\<forall>j. 0 \<le> j \<and> j \<le> 0 + max_retries \<longrightarrow> transport j = TransientFailure"
    by simp
  with a show "invoke max_retries idempotent transport = (Inl TransportError, max_retries + 1)"
    using send_with_retries_exhausted [of idempotent 0 max_retries transport]
    by (simp add: invoke_def)
next
  assume "\<not> idempotent \<and> transport 0 = TransientFailure"
  then show "invoke max_retries idempotent transport = (Inl TransportError, 1)"
    by (simp add: invoke_def send_with_retries_not_idempotent)
next
  show "0 < snd (invoke max_retries idempotent transport)"
    using send_with_retries_sends [of 0 max_retries idempotent transport]
    by (simp add: invoke_def)
  show "snd (invoke max_retries idempotent transport) \<le> max_retries + 1"
    using send_with_retries_bound [of max_retries idempotent transport 0]
    by (simp add: invoke_def)
qed

theorem dispatcher_retries_idempotent_only_witness:
  "(0::nat) < 3 \<and> fails_once 0 = TransientFailure \<and> fails_once 1 = Response ''v1''
   \<and> invoke 3 True fails_once = (Inr ''v1'', 2)
   \<and> always_fails 0 = TransientFailure \<and> always_fails 3 = TransientFailure
   \<and> invoke 3 True always_fails = (Inl TransportError, 3 + 1)
   \<and> invoke 3 False fails_once = (Inl TransportError, 1)"
proof -
  have h1: "True \<and> (0::nat) < 3 \<and> fails_once 0 = TransientFailure \<and> fails_once 1 = Response ''v1''"
    by (simp add: fails_once_def)
  have h2: "True \<and> (\<forall>k \<le> 3. always_fails k = TransientFailure)"
    by (simp add: always_fails_def)
  have h3: "\<not> False \<and> fails_once 0 = TransientFailure"
    by (simp add: fails_once_def)
  have c1: "invoke 3 True fails_once = (Inr ''v1'', 2)"
    using dispatcher_retries_idempotent_only [of True 3 fails_once "''v1''", THEN conjunct1] h1
    by (rule mp)
  have c2: "invoke 3 True always_fails = (Inl TransportError, 3 + 1)"
    using dispatcher_retries_idempotent_only [of True 3 always_fails, THEN conjunct2, THEN conjunct1] h2
    by (rule mp)
  have c3: "invoke 3 False fails_once = (Inl TransportError, 1)"
    using dispatcher_retries_idempotent_only [of False 3 fails_once, THEN conjunct2, THEN conjunct2, THEN conjunct1] h3
    by (rule mp)
  have h4: "always_fails 0 = TransientFailure \<and> always_fails 3 = TransientFailure"
    by (simp add: always_fails_def)
  from h1 h4 c1 c2 c3 show ?thesis
    by blast
qed

end
